theory Spec2Isabelle
  imports Complex_Main "HOL-Library.Multiset"
begin

section \<open>JavaScript array primitives used by the sources\<close>

text \<open>
  JavaScript errors that the modelled code can raise: reading a property of
  \<open>undefined\<close> is a \<open>TypeError\<close>, unbounded recursion ends in a
  \<open>RangeError\<close> (call stack exhausted).
\<close>

datatype error = TypeError | RangeError

text \<open>\<open>xs[i]\<close>: \<open>undefined\<close> (here \<open>None\<close>) outside \<open>0 .. length - 1\<close>.\<close>

definition at_index :: "'a list \<Rightarrow> int \<Rightarrow> 'a option" where
  "at_index xs i = (if 0 \<le> i \<and> i < int (length xs) then Some (xs ! nat i) else None)"

text \<open>\<open>xs.slice(0, e)\<close>: a negative end counts from the end of the array, and the
  end is clamped to the array.\<close>

definition slice0 :: "'a list \<Rightarrow> int \<Rightarrow> 'a list" where
  "slice0 xs e =
     (let n = int (length xs);
          k = (if e < 0 then max (n + e) 0 else min e n)
      in take (nat k) xs)"

text \<open>\<open>xs.findIndex(p)\<close>: the first index whose element satisfies \<open>p\<close>, or \<open>-1\<close>.\<close>

fun findIndex :: "('a \<Rightarrow> bool) \<Rightarrow> 'a list \<Rightarrow> int" where
  "findIndex p [] = -1"
| "findIndex p (x # xs) =
     (if p x then 0 else (let i = findIndex p xs in if i = -1 then -1 else i + 1))"

section \<open>The undo/redo history: \<open>useHistory\<close> (App.tsx)\<close>

text \<open>The two state cells of the hook: the snapshots and the pointer. The pointer
  is a JavaScript number, so nothing keeps it inside the array.\<close>

record 'a History =
  history :: "'a list"
  currentIndex :: int

definition useHistory :: "'a \<Rightarrow> 'a History" where
  "useHistory initialState = \<lparr>history = [initialState], currentIndex = 0\<rparr>"

text \<open>\<open>const state = history[currentIndex]\<close>\<close>

definition state :: "'a History \<Rightarrow> 'a option" where
  "state h = at_index (history h) (currentIndex h)"

text \<open>
  \<open>React.SetStateAction<T>\<close>: a value, or a function of the previous state. The
  function receives \<open>history[currentIndex]\<close>, which is \<open>undefined\<close> when the
  pointer is outside the array, and it may throw.
\<close>

datatype 'a SetStateAction = Value 'a | Updater "'a option \<Rightarrow> error + 'a"

definition applyAction :: "'a SetStateAction \<Rightarrow> 'a option \<Rightarrow> error + 'a" where
  "applyAction action prev = (case action of Updater f \<Rightarrow> f prev | Value v \<Rightarrow> Inr v)"

text \<open>
  \<open>setState\<close>. \<open>JSON.stringify\<close> is a builtin of the platform; the hook only
  compares two of its results with \<open>===\<close>, so the serialiser is a parameter
  \<open>stringify\<close> and the type of JSON texts is left open. \<open>JSON.stringify(undefined)\<close>
  is \<open>undefined\<close>, which is what \<open>map_option\<close> gives for an out-of-range pointer.
\<close>

definition setState :: "('a \<Rightarrow> 'j) \<Rightarrow> 'a SetStateAction \<Rightarrow> 'a History \<Rightarrow> error + 'a History" where
  "setState stringify action h =
     (case applyAction action (state h) of
        Inl e \<Rightarrow> Inl e
      | Inr newState \<Rightarrow>
          if Some (stringify newState) = map_option stringify (state h) then Inr h
          else
            (let newHistory = slice0 (history h) (currentIndex h + 1) @ [newState]
             in Inr \<lparr>history = newHistory, currentIndex = int (length newHistory) - 1\<rparr>))"

definition undo :: "'a History \<Rightarrow> 'a History" where
  "undo h = (if currentIndex h > 0 then h\<lparr>currentIndex := currentIndex h - 1\<rparr> else h)"

text \<open>\<open>redo\<close> as written in the source: the guard looks forward, the assignment
  is \<open>setCurrentIndex(currentIndex - 1)\<close>.\<close>

definition redo :: "'a History \<Rightarrow> 'a History" where
  "redo h =
     (if currentIndex h < int (length (history h)) - 1
      then h\<lparr>currentIndex := currentIndex h - 1\<rparr> else h)"

definition canUndo :: "'a History \<Rightarrow> bool" where
  "canUndo h = (currentIndex h > 0)"

definition canRedo :: "'a History \<Rightarrow> bool" where
  "canRedo h = (currentIndex h < int (length (history h)) - 1)"

text \<open>A history whose pointer names one of its snapshots.\<close>

definition pointer_in_range :: "'a History \<Rightarrow> bool" where
  "pointer_in_range h = (0 \<le> currentIndex h \<and> currentIndex h < int (length (history h)))"

section \<open>Layers (types.ts)\<close>

text \<open>
  The three interfaces of \<open>types.ts\<close> repeat their common fields; here the common
  fields are one record that the three extend. Field \<open>id\<close>, \<open>x\<close> and \<open>y\<close> carry a
  prime, since \<open>id\<close> is a HOL constant and \<open>x\<close>, \<open>y\<close> are wanted as variables.
  JavaScript numbers are modelled as reals. An absent \<open>parentId\<close> and a \<open>parentId\<close>
  that is \<open>undefined\<close> are both \<open>None\<close>. The discriminant \<open>type\<close> is the
  constructor of \<open>Layer\<close>. \<open>align\<close> is optional here, because \<open>handleAddText\<close>
  builds its text element without it.
\<close>

datatype FontWeight = WeightNormal | Bold
datatype FontStyle = StyleNormal | Italic
datatype TextDecoration = DecorationNone | Underline
datatype Align = AlignLeft | AlignCenter | AlignRight
datatype FillType = Solid | Gradient

record LayerCommon =
  id' :: string
  name :: string
  visible :: bool
  parentId :: "string option"

record CanvasGroup = LayerCommon +
  expanded :: bool

record Geometry = LayerCommon +
  x' :: real
  y' :: real
  width :: real
  height :: real
  rotation :: real

record CanvasImageElement = Geometry +
  src :: string
  mimeType :: string

record CanvasTextElement = Geometry +
  content :: string
  fontSize :: real
  color :: string
  fontWeight :: FontWeight
  fontStyle :: FontStyle
  textDecoration :: TextDecoration
  align :: "Align option"
  shadowEnabled :: bool
  shadowColor :: string
  shadowBlur :: real
  shadowOffsetX :: real
  shadowOffsetY :: real
  outlineEnabled :: bool
  outlineColor :: string
  outlineWidth :: real
  fillType :: FillType
  gradientColors :: "string \<times> string"
  gradientDirection :: string

datatype Layer = Image CanvasImageElement | Text CanvasTextElement | Group CanvasGroup

text \<open>\<open>l.id\<close>, \<open>l.parentId\<close>, \<open>l.type === 'group'\<close> on a value of the union.\<close>

definition layerId :: "Layer \<Rightarrow> string" where
  "layerId l = (case l of Image i \<Rightarrow> id' i | Text t \<Rightarrow> id' t | Group g \<Rightarrow> id' g)"

definition layerParentId :: "Layer \<Rightarrow> string option" where
  "layerParentId l = (case l of Image i \<Rightarrow> parentId i | Text t \<Rightarrow> parentId t | Group g \<Rightarrow> parentId g)"

definition isGroup :: "Layer \<Rightarrow> bool" where
  "isGroup l = (case l of Group g \<Rightarrow> True | _ \<Rightarrow> False)"

text \<open>\<open>{ ...l, parentId: p }\<close>, \<open>draggedLayer.parentId = p\<close>, and (with \<open>None\<close>) the
  copy without the key, \<open>const { parentId, ...rest } = l\<close>.\<close>

definition withParentId :: "string option \<Rightarrow> Layer \<Rightarrow> Layer" where
  "withParentId p l =
     (case l of
        Image i \<Rightarrow> Image (i\<lparr>parentId := p\<rparr>)
      | Text t \<Rightarrow> Text (t\<lparr>parentId := p\<rparr>)
      | Group g \<Rightarrow> Group (g\<lparr>parentId := p\<rparr>))"

text \<open>\<open>layers.filter(l => l.parentId === layerId)\<close>\<close>

definition childrenOf :: "string \<Rightarrow> Layer list \<Rightarrow> Layer list" where
  "childrenOf layerId0 layers = filter (\<lambda>l. layerParentId l = Some layerId0) layers"

text \<open>\<open>new Map(prev.map(l => [l.id, l]))\<close>: of two layers with one id the later
  entry wins.\<close>

definition layersById :: "Layer list \<Rightarrow> string \<rightharpoonup> Layer" where
  "layersById prev = map_of (rev (map (\<lambda>l. (layerId l, l)) prev))"

text \<open>\<open>xs.splice(start, 1)\<close> and \<open>xs.splice(start, 0, x)\<close>: a negative start counts
  from the end, and the start is clamped to the array.\<close>

definition spliceStart :: "'a list \<Rightarrow> int \<Rightarrow> nat" where
  "spliceStart xs start =
     (let n = int (length xs)
      in nat (if start < 0 then max (n + start) 0 else min start n))"

definition spliceDelete1 :: "int \<Rightarrow> 'a list \<Rightarrow> 'a list" where
  "spliceDelete1 start xs = (let k = spliceStart xs start in take k xs @ drop (Suc k) xs)"

definition spliceInsert :: "int \<Rightarrow> 'a \<Rightarrow> 'a list \<Rightarrow> 'a list" where
  "spliceInsert start x xs = (let k = spliceStart xs start in take k xs @ x # drop k xs)"

section \<open>Descendants: \<open>getDescendantIds\<close> (App.tsx)\<close>

text \<open>
  The function recurs through every child that is a group and keeps no set of
  visited ids, so it need not return: \<open>None\<close> is "does not return".
  \<open>getDescendantIds_loop layers children\<close> is the \<open>for\<close> loop over \<open>children\<close>,
  whose body pushes the child's id and then the result of the recursive call.
\<close>

partial_function (option) getDescendantIds_loop :: "Layer list \<Rightarrow> Layer list \<Rightarrow> string list option" where
  "getDescendantIds_loop layers children =
     (case children of
        [] \<Rightarrow> Some []
      | child # rest \<Rightarrow>
          Option.bind
            (if isGroup child
             then getDescendantIds_loop layers (childrenOf (layerId child) layers)
             else Some [])
            (\<lambda>sub. Option.bind (getDescendantIds_loop layers rest)
               (\<lambda>more. Some (layerId child # sub @ more))))"

definition getDescendantIds :: "Layer list \<Rightarrow> string \<Rightarrow> string list option" where
  "getDescendantIds layers layerId0 = getDescendantIds_loop layers (childrenOf layerId0 layers)"

text \<open>
  \<open>getDescendantIds\<close> of LayersPanel.tsx: the inner \<open>findChildren\<close> pushes onto one
  shared array \<open>allDescendants\<close>, threaded here as an argument and returned.
\<close>

partial_function (option) findChildren :: "Layer list \<Rightarrow> Layer list \<Rightarrow> string list \<Rightarrow> string list option" where
  "findChildren layers children allDescendants =
     (case children of
        [] \<Rightarrow> Some allDescendants
      | child # rest \<Rightarrow>
          Option.bind
            (if isGroup child
             then findChildren layers (childrenOf (layerId child) layers)
                    (allDescendants @ [layerId child])
             else Some (allDescendants @ [layerId child]))
            (\<lambda>pushed. findChildren layers rest pushed))"

definition LayersPanel_getDescendantIds :: "Layer list \<Rightarrow> string \<Rightarrow> string list option" where
  "LayersPanel_getDescendantIds layers startLayerId =
     findChildren layers (childrenOf startLayerId layers) []"

section \<open>The application state (App.tsx)\<close>

datatype Role = User | Assistant | System

record ChatMessage =
  msgId :: string
  role :: Role
  msgContent :: string
  images :: "string list option"

text \<open>
  The state cells of \<open>App\<close> that the properties below speak about: the layer
  history (\<open>useHistory<Layer[]>\<close>), the selection, the busy flag with its message,
  the transcript and the shift flag. The active tool, the drawing colour, the
  loading flag of the chat and the panel sizes are left out. \<open>layers\<close> is the
  current snapshot.
\<close>

record App =
  layersHistory :: "Layer list History"
  selectedIds :: "string list"
  isProcessing :: bool
  processingMessage :: string
  messages :: "ChatMessage list"
  isShiftPressed :: bool

definition layers :: "App \<Rightarrow> Layer list option" where
  "layers app = state (layersHistory app)"

definition setLayers :: "(Layer list \<Rightarrow> 'j) \<Rightarrow> Layer list SetStateAction \<Rightarrow> App \<Rightarrow> error + App" where
  "setLayers stringify action app =
     (case setState stringify action (layersHistory app) of
        Inl e \<Rightarrow> Inl e
      | Inr h \<Rightarrow> Inr (app\<lparr>layersHistory := h\<rparr>))"

text \<open>An updater \<open>prev => ...\<close> that starts by reading a property of \<open>prev\<close>
  (\<open>prev.map\<close>, \<open>prev.filter\<close>, \<open>[...prev]\<close>): a \<open>TypeError\<close> on \<open>undefined\<close>.\<close>

definition onLayers :: "(Layer list \<Rightarrow> error + Layer list) \<Rightarrow> Layer list SetStateAction" where
  "onLayers f = Updater (\<lambda>prev. case prev of None \<Rightarrow> Inl TypeError | Some ls \<Rightarrow> f ls)"

text \<open>\<open>Date.now()\<close> is a parameter \<open>now\<close> of the handlers that call it; \<open>decimal\<close>
  is its text inside a template literal.\<close>

fun decimal :: "nat \<Rightarrow> string" where
  "decimal n =
     (if n < 10 then [''0123456789'' ! n]
      else decimal (n div 10) @ [''0123456789'' ! (n mod 10)])"

declare decimal.simps [simp del]

subsection \<open>\<open>handleAddText\<close>\<close>

text \<open>The element that \<open>handleAddText\<close> creates; it sets no \<open>align\<close>.\<close>

definition newTextElement :: "nat \<Rightarrow> real \<Rightarrow> real \<Rightarrow> CanvasTextElement" where
  "newTextElement now x y =
     \<lparr>id' = ''el-'' @ decimal now, name = ''New Text'', visible = True, parentId = None,
      x' = x, y' = y, width = 250, height = 48, rotation = 0,
      content = ''Your Text Here'', fontSize = 40, color = ''#000000'',
      fontWeight = WeightNormal, fontStyle = StyleNormal, textDecoration = DecorationNone,
      align = None,
      shadowEnabled = False, shadowColor = ''#000000'', shadowBlur = 5,
      shadowOffsetX = 5, shadowOffsetY = 5,
      outlineEnabled = False, outlineColor = ''#ffffff'', outlineWidth = 2,
      fillType = Solid, gradientColors = (''#ff0000'', ''#0000ff''),
      gradientDirection = ''to right''\<rparr>"

definition handleAddText :: "(Layer list \<Rightarrow> 'j) \<Rightarrow> nat \<Rightarrow> real \<Rightarrow> real \<Rightarrow> App \<Rightarrow> error + App" where
  "handleAddText stringify now x y app =
     (case setLayers stringify (onLayers (\<lambda>prev. Inr (Text (newTextElement now x y) # prev))) app of
        Inl e \<Rightarrow> Inl e
      | Inr app' \<Rightarrow> Inr (app'\<lparr>selectedIds := [''el-'' @ decimal now]\<rparr>))"

subsection \<open>\<open>handleGroupSelection\<close>\<close>

definition newGroup :: "string \<Rightarrow> Layer" where
  "newGroup newGroupId =
     Group \<lparr>id' = newGroupId, name = ''New Group'', visible = True, parentId = None,
            expanded = True\<rparr>"

text \<open>The updater passed to \<open>setLayers\<close>. \<open>selectedIndices\<close> is sorted with
  \<open>(a, b) => b - a\<close>, that is, descending.\<close>

definition groupLayers :: "string list \<Rightarrow> string \<Rightarrow> Layer list \<Rightarrow> Layer list" where
  "groupLayers selected newGroupId prevLayers =
     (let topItemIndex = findIndex (\<lambda>l. Some (layerId l) = at_index selected 0) prevLayers;
          selectedLayers = List.map_filter (\<lambda>i. find (\<lambda>l. layerId l = i) prevLayers) selected;
          selectedIndices =
            rev (sort (filter (\<lambda>i. i \<noteq> -1)
                         (map (\<lambda>i. findIndex (\<lambda>l. layerId l = i) prevLayers) selected)));
          removed = fold spliceDelete1 selectedIndices prevLayers;
          finalTopIndex =
            (if topItemIndex > int (length removed) then int (length removed) else topItemIndex);
          withGroup = spliceInsert finalTopIndex (newGroup newGroupId) removed
      in fold (\<lambda>(index, layer). spliceInsert (finalTopIndex + 1 + int index)
                                     (withParentId (Some newGroupId) layer))
              (enumerate 0 selectedLayers) withGroup)"

definition handleGroupSelection :: "(Layer list \<Rightarrow> 'j) \<Rightarrow> nat \<Rightarrow> App \<Rightarrow> error + App" where
  "handleGroupSelection stringify now app =
     (if length (selectedIds app) < 1 then Inr app
      else
        (let newGroupId = ''group-'' @ decimal now
         in case setLayers stringify
                   (onLayers (\<lambda>prevLayers. Inr (groupLayers (selectedIds app) newGroupId prevLayers)))
                   app of
              Inl e \<Rightarrow> Inl e
            | Inr app' \<Rightarrow> Inr (app'\<lparr>selectedIds := [newGroupId]\<rparr>)))"

subsection \<open>\<open>handleUngroupSelection\<close>\<close>

text \<open>One round of \<open>groupsToUngroup.forEach\<close>: the \<open>map\<close> releases the children of
  \<open>groupId\<close> and pushes their ids onto \<open>newSelection\<close>, the \<open>filter\<close> drops the
  group. The pair is (\<open>newLayers\<close>, \<open>newSelection\<close>).\<close>

definition ungroupStep :: "string \<Rightarrow> Layer list \<times> string list \<Rightarrow> Layer list \<times> string list" where
  "ungroupStep groupId acc =
     (case acc of (newLayers, newSelection) \<Rightarrow>
        (filter (\<lambda>l. layerId l \<noteq> groupId)
           (map (\<lambda>l. if layerParentId l = Some groupId then withParentId None l else l) newLayers),
         newSelection @ map layerId (childrenOf groupId newLayers)))"

definition ungroupLayers :: "string list \<Rightarrow> Layer list \<Rightarrow> Layer list \<times> string list" where
  "ungroupLayers groupsToUngroup prevLayers = fold ungroupStep groupsToUngroup (prevLayers, [])"

definition handleUngroupSelection :: "(Layer list \<Rightarrow> 'j) \<Rightarrow> App \<Rightarrow> error + App" where
  "handleUngroupSelection stringify app =
     (case layers app of
        None \<Rightarrow> (if selectedIds app = [] then Inr app else Inl TypeError)
      | Some ls \<Rightarrow>
          (let groupsToUngroup =
                 filter (\<lambda>i. case find (\<lambda>l. layerId l = i) ls of
                                None \<Rightarrow> False | Some l \<Rightarrow> isGroup l)
                        (selectedIds app)
           in if length groupsToUngroup = 0 then Inr app
              else
                (case setLayers stringify
                        (onLayers (\<lambda>prevLayers. Inr (fst (ungroupLayers groupsToUngroup prevLayers))))
                        app of
                   Inl e \<Rightarrow> Inl e
                 | Inr app' \<Rightarrow>
                     Inr (app'\<lparr>selectedIds := snd (ungroupLayers groupsToUngroup ls)\<rparr>))))"

subsection \<open>\<open>handleReorderAndReparentLayers\<close>\<close>

datatype Position = Before | After | Inside

text \<open>The updater passed to \<open>setLayers\<close>. \<open>getDescendantIds\<close> is the closure over
  the component's \<open>layers\<close>, given here as \<open>current\<close>; when it does not return, the
  call stack is exhausted.\<close>

definition reorderLayers :: "Layer list \<Rightarrow> string \<Rightarrow> string \<Rightarrow> Position \<Rightarrow> Layer list \<Rightarrow> error + Layer list" where
  "reorderLayers current dragId dropId position prev =
     (case layersById prev dragId of
        None \<Rightarrow> Inr prev
      | Some draggedLayerOriginal \<Rightarrow>
     (case layersById prev dropId of
        None \<Rightarrow> Inr prev
      | Some dropLayer \<Rightarrow>
          if layerParentId dropLayer = Some dragId then Inr prev
          else
            (case getDescendantIds current dragId of
               None \<Rightarrow> Inl RangeError
             | Some descendants \<Rightarrow>
                 if dropId \<in> set descendants then Inr prev
                 else
                   (let newLayers = filter (\<lambda>l. layerId l \<noteq> dragId) prev;
                        finalDropIndex = findIndex (\<lambda>l. layerId l = dropId) newLayers
                    in if finalDropIndex = -1 then Inr prev
                       else if position = Inside then
                         (let draggedLayer = withParentId (Some (layerId dropLayer)) draggedLayerOriginal;
                              children = childrenOf (layerId dropLayer) newLayers
                          in if length children > 0 then
                               (let lastChildIndex =
                                      findIndex (\<lambda>l. layerId l = layerId (last children)) newLayers
                                in Inr (spliceInsert (lastChildIndex + 1) draggedLayer newLayers))
                             else Inr (spliceInsert (finalDropIndex + 1) draggedLayer newLayers))
                       else
                         (let draggedLayer = withParentId (layerParentId dropLayer) draggedLayerOriginal;
                              insertionIndex =
                                (if position = Before then finalDropIndex else finalDropIndex + 1)
                          in Inr (spliceInsert insertionIndex draggedLayer newLayers))))))"

definition handleReorderAndReparentLayers ::
    "(Layer list \<Rightarrow> 'j) \<Rightarrow> string \<Rightarrow> string \<Rightarrow> Position \<Rightarrow> App \<Rightarrow> error + App" where
  "handleReorderAndReparentLayers stringify dragId dropId position app =
     setLayers stringify
       (onLayers (\<lambda>prev. case layers app of
                            None \<Rightarrow> Inl TypeError
                          | Some current \<Rightarrow> reorderLayers current dragId dropId position prev))
       app"

subsection \<open>\<open>handleDeleteSelected\<close> and the keyboard handler\<close>

text \<open>\<open>selectedIds.forEach(id => getDescendantIds(id).forEach(...))\<close>: the ids added
  to \<open>idsToDelete\<close>, if every call returns.\<close>

fun descendantsOfAll :: "Layer list \<Rightarrow> string list \<Rightarrow> string list option" where
  "descendantsOfAll current [] = Some []"
| "descendantsOfAll current (i # rest) =
     Option.bind (getDescendantIds current i)
       (\<lambda>ds. Option.bind (descendantsOfAll current rest) (\<lambda>more. Some (ds @ more)))"

definition handleDeleteSelected :: "(Layer list \<Rightarrow> 'j) \<Rightarrow> App \<Rightarrow> error + App" where
  "handleDeleteSelected stringify app =
     (if length (selectedIds app) > 0 then
        (case layers app of
           None \<Rightarrow> Inl TypeError
         | Some current \<Rightarrow>
             (case descendantsOfAll current (selectedIds app) of
                None \<Rightarrow> Inl RangeError
              | Some ds \<Rightarrow>
                  (let idsToDelete = set (selectedIds app) \<union> set ds
                   in case setLayers stringify
                             (onLayers (\<lambda>prev. Inr (filter (\<lambda>l. layerId l \<notin> idsToDelete) prev)))
                             app of
                        Inl e \<Rightarrow> Inl e
                      | Inr app' \<Rightarrow> Inr (app'\<lparr>selectedIds := []\<rparr>))))
      else Inr app)"

record KeyboardEvent =
  key :: string
  metaKey :: bool
  ctrlKey :: bool
  shiftKey :: bool
  repeat :: bool

text \<open>\<open>document.activeElement\<close>: \<open>null\<close> or an element, of which the handler reads
  the tag name and \<open>isContentEditable\<close>.\<close>

record ActiveElement =
  tagName :: string
  isContentEditable :: bool

definition isTyping :: "ActiveElement option \<Rightarrow> bool" where
  "isTyping activeElement =
     (case activeElement of
        None \<Rightarrow> False
      | Some el \<Rightarrow> tagName el = ''INPUT'' \<or> tagName el = ''TEXTAREA'' \<or> isContentEditable el)"

text \<open>What one run of \<open>handleKeyDown\<close> calls, in order.\<close>

datatype KeyCall =
  SetIsShiftPressed bool | PreventDefault | CallUndo | CallRedo | CallHandleDeleteSelected

definition handleKeyDown :: "KeyboardEvent \<Rightarrow> ActiveElement option \<Rightarrow> KeyCall list" where
  "handleKeyDown e activeElement =
     (if key e = ''Shift'' \<and> \<not> repeat e then [SetIsShiftPressed True] else [])
     @ (if (metaKey e \<or> ctrlKey e) \<and> key e = ''z'' \<and> \<not> shiftKey e
        then [PreventDefault, CallUndo] else [])
     @ (if (metaKey e \<or> ctrlKey e) \<and> key e = ''z'' \<and> shiftKey e
        then [PreventDefault, CallRedo] else [])
     @ (if key e = ''Delete'' \<and> \<not> isTyping activeElement
        then [PreventDefault, CallHandleDeleteSelected] else [])"

text \<open>The effect of one call on the application state.\<close>

definition runKeyCall :: "(Layer list \<Rightarrow> 'j) \<Rightarrow> KeyCall \<Rightarrow> App \<Rightarrow> error + App" where
  "runKeyCall stringify c app =
     (case c of
        SetIsShiftPressed b \<Rightarrow> Inr (app\<lparr>isShiftPressed := b\<rparr>)
      | PreventDefault \<Rightarrow> Inr app
      | CallUndo \<Rightarrow> Inr (app\<lparr>layersHistory := undo (layersHistory app)\<rparr>)
      | CallRedo \<Rightarrow> Inr (app\<lparr>layersHistory := redo (layersHistory app)\<rparr>)
      | CallHandleDeleteSelected \<Rightarrow> handleDeleteSelected stringify app)"

fun runKeyCalls :: "(Layer list \<Rightarrow> 'j) \<Rightarrow> KeyCall list \<Rightarrow> App \<Rightarrow> error + App" where
  "runKeyCalls stringify [] app = Inr app"
| "runKeyCalls stringify (c # cs) app =
     (case runKeyCall stringify c app of
        Inl e \<Rightarrow> Inl e
      | Inr app' \<Rightarrow> runKeyCalls stringify cs app')"

definition onKeyDown :: "(Layer list \<Rightarrow> 'j) \<Rightarrow> KeyboardEvent \<Rightarrow> ActiveElement option \<Rightarrow> App \<Rightarrow> error + App" where
  "onKeyDown stringify e activeElement app =
     runKeyCalls stringify (handleKeyDown e activeElement) app"

subsection \<open>\<open>handleRemoveBackground\<close>\<close>

text \<open>A value caught by \<open>catch (error)\<close>: an \<open>Error\<close> object with its message, or
  anything else.\<close>

datatype Thrown = ErrorObject string | NotAnError

definition isImage :: "Layer \<Rightarrow> bool" where
  "isImage l = (case l of Image i \<Rightarrow> True | _ \<Rightarrow> False)"

definition isText :: "Layer \<Rightarrow> bool" where
  "isText l = (case l of Text t \<Rightarrow> True | _ \<Rightarrow> False)"

text \<open>
  \<open>removeBackground\<close> is the external call; its outcome \<open>awaited\<close> is a parameter:
  the value thrown, or the resulting image. The handler is modelled as one step,
  from the click to the end of its \<open>finally\<close> block. On the success path the
  updater runs on the snapshot that \<open>layers.find\<close> has just read, so the \<open>Inl\<close>
  branch of \<open>setLayers\<close> there is never taken.
\<close>

definition handleRemoveBackground ::
    "(Layer list \<Rightarrow> 'j) \<Rightarrow> nat \<Rightarrow> Thrown + string \<Rightarrow> App \<Rightarrow> error + App" where
  "handleRemoveBackground stringify now awaited app =
     (if length (selectedIds app) \<noteq> 1 then Inr app
      else
        (case layers app of
           None \<Rightarrow> Inl TypeError
         | Some ls \<Rightarrow>
             (case find (\<lambda>l. Some (layerId l) = at_index (selectedIds app) 0 \<and> isImage l) ls of
                Some (Image selectedElement) \<Rightarrow>
                  (let app1 = app\<lparr>isProcessing := True,
                                  processingMessage := ''Removing background...''\<rparr>;
                       tried =
                         (case awaited of
                            Inr resultImage \<Rightarrow>
                              (let updatedElement =
                                     selectedElement\<lparr>src := resultImage, mimeType := ''image/png''\<rparr>
                               in case setLayers stringify
                                         (onLayers (\<lambda>prev. Inr (map (\<lambda>l. if layerId l = id' selectedElement
                                                                         then Image updatedElement else l) prev)))
                                         app1 of
                                    Inl e \<Rightarrow> Inl e
                                  | Inr app2 \<Rightarrow>
                                      Inr (app2\<lparr>messages := messages app2 @
                                              [\<lparr>msgId = ''msg-'' @ decimal now @ ''-ai'', role = System,
                                                msgContent = ''Successfully removed background for ''
                                                  @ name selectedElement @ ''.'',
                                                images = None\<rparr>]\<rparr>))
                          | Inl thrown \<Rightarrow>
                              Inr (app1\<lparr>messages := messages app1 @
                                      [\<lparr>msgId = ''msg-'' @ decimal now @ ''-err'', role = System,
                                        msgContent =
                                          (case thrown of
                                             ErrorObject message \<Rightarrow> message
                                           | NotAnError \<Rightarrow>
                                               ''An unknown error occurred during background removal.''),
                                        images = None\<rparr>]\<rparr>))
                   in case tried of
                        Inl e \<Rightarrow> Inl e
                      | Inr app3 \<Rightarrow> Inr (app3\<lparr>isProcessing := False, processingMessage := []\<rparr>))
              | _ \<Rightarrow> Inr app)))"

subsection \<open>Resizing: \<open>calculateFontSizeFromHeight\<close>, \<open>onResizeEnd\<close> (CanvasArea),
  \<open>handleElementUpdate\<close>\<close>

definition calculateFontSizeFromHeight :: "real \<Rightarrow> real" where
  "calculateFontSizeFromHeight h = (let FONT_SIZE_TO_HEIGHT_RATIO = 1.2 in max 1 (h / FONT_SIZE_TO_HEIGHT_RATIO))"

text \<open>\<open>Partial<CanvasElement>\<close> with the keys that the gesture handlers set.\<close>

record PartialElement =
  x_new :: "real option"
  y_new :: "real option"
  width_new :: "real option"
  height_new :: "real option"
  rotation_new :: "real option"
  fontSize_new :: "real option"

definition orKeep :: "'a option \<Rightarrow> 'a \<Rightarrow> 'a" where
  "orKeep new old = (case new of None \<Rightarrow> old | Some v \<Rightarrow> v)"

text \<open>\<open>{ ...l, ...newProps }\<close>. A \<open>fontSize\<close> spread onto an image is a key that no
  reader of an image looks at; the image record has no place for it.\<close>

definition spreadProps :: "PartialElement \<Rightarrow> Layer \<Rightarrow> Layer" where
  "spreadProps newProps l =
     (case l of
        Image i \<Rightarrow>
          Image (i\<lparr>x' := orKeep (x_new newProps) (x' i), y' := orKeep (y_new newProps) (y' i),
                   width := orKeep (width_new newProps) (width i),
                   height := orKeep (height_new newProps) (height i),
                   rotation := orKeep (rotation_new newProps) (rotation i)\<rparr>)
      | Text t \<Rightarrow>
          Text (t\<lparr>x' := orKeep (x_new newProps) (x' t), y' := orKeep (y_new newProps) (y' t),
                  width := orKeep (width_new newProps) (width t),
                  height := orKeep (height_new newProps) (height t),
                  rotation := orKeep (rotation_new newProps) (rotation t),
                  fontSize := orKeep (fontSize_new newProps) (fontSize t)\<rparr>)
      | Group g \<Rightarrow> Group g)"

definition elementUpdate :: "string \<Rightarrow> PartialElement \<Rightarrow> Layer list \<Rightarrow> Layer list" where
  "elementUpdate i newProps prev =
     map (\<lambda>l. if layerId l = i \<and> (isImage l \<or> isText l) then spreadProps newProps l else l) prev"

definition handleElementUpdate :: "(Layer list \<Rightarrow> 'j) \<Rightarrow> string \<Rightarrow> PartialElement \<Rightarrow> App \<Rightarrow> error + App" where
  "handleElementUpdate stringify i newProps app =
     setLayers stringify (onLayers (\<lambda>prev. Inr (elementUpdate i newProps prev))) app"

definition renderableElements :: "Layer list \<Rightarrow> Layer list" where
  "renderableElements ls = filter (\<lambda>l. isImage l \<or> isText l) ls"

text \<open>\<open>e.lastEvent\<close> of Moveable's resize-end event: absent, a resize-start event
  (no \<open>width\<close>, \<open>height\<close>, \<open>drag\<close>), or a resize event.\<close>

record OnResize =
  ev_width :: real
  ev_height :: real
  drag_left :: real
  drag_top :: real

datatype LastEvent = NoLastEvent | ResizeStart | Resize OnResize

definition onResizeEnd :: "(Layer list \<Rightarrow> 'j) \<Rightarrow> string \<Rightarrow> LastEvent \<Rightarrow> App \<Rightarrow> error + App" where
  "onResizeEnd stringify target_id lastEvent app =
     (case lastEvent of
        Resize ev \<Rightarrow>
          (case layers app of
             None \<Rightarrow> Inl TypeError
           | Some ls \<Rightarrow>
               (case find (\<lambda>el. layerId el = target_id) (renderableElements ls) of
                  None \<Rightarrow> Inr app
                | Some el \<Rightarrow>
                    (let newProps =
                           \<lparr>x_new = Some (drag_left ev), y_new = Some (drag_top ev),
                            width_new = Some (ev_width ev), height_new = Some (ev_height ev),
                            rotation_new = None,
                            fontSize_new =
                              (if isText el then Some (calculateFontSizeFromHeight (ev_height ev))
                               else None)\<rparr>
                     in handleElementUpdate stringify target_id newProps app)))
      | _ \<Rightarrow> Inr app)"

text \<open>\<open>{}\<close>\<close>

definition noProps :: PartialElement where
  "noProps = \<lparr>x_new = None, y_new = None, width_new = None, height_new = None,
              rotation_new = None, fontSize_new = None\<rparr>"

text \<open>
  \<open>handleGroupUpdate\<close>: of a target (a DOM node) only its \<open>id\<close> is read, so the
  targets are a list of ids; \<open>updateFn\<close> gets the target and its index. One round
  of \<open>targets.forEach\<close> works on the pair (\<open>newLayers\<close>, \<open>updatedIds\<close>).
\<close>

definition handleGroupUpdate_step ::
    "(string \<Rightarrow> nat \<Rightarrow> PartialElement) \<Rightarrow> nat \<times> string \<Rightarrow> Layer list \<times> string set
      \<Rightarrow> Layer list \<times> string set" where
  "handleGroupUpdate_step updateFn it acc =
     (case it of (i, t) \<Rightarrow>
      case acc of (newLayers, updatedIds) \<Rightarrow>
        (let index = findIndex (\<lambda>l. layerId l = t) newLayers
         in if index > -1 \<and> t \<notin> updatedIds then
              (let layer = newLayers ! nat index
               in ((if isImage layer \<or> isText layer
                    then newLayers[nat index := spreadProps (updateFn t i) layer]
                    else newLayers),
                   insert t updatedIds))
            else (newLayers, updatedIds)))"

definition groupUpdate :: "string list \<Rightarrow> (string \<Rightarrow> nat \<Rightarrow> PartialElement) \<Rightarrow> Layer list \<Rightarrow> Layer list" where
  "groupUpdate targets updateFn prevLayers =
     fst (fold (handleGroupUpdate_step updateFn) (enumerate 0 targets) (prevLayers, {}))"

definition handleGroupUpdate ::
    "(Layer list \<Rightarrow> 'j) \<Rightarrow> string list \<Rightarrow> (string \<Rightarrow> nat \<Rightarrow> PartialElement) \<Rightarrow> App \<Rightarrow> error + App" where
  "handleGroupUpdate stringify targets updateFn app =
     setLayers stringify (onLayers (\<lambda>prevLayers. Inr (groupUpdate targets updateFn prevLayers))) app"

text \<open>
  \<open>onResizeGroupEnd\<close>: \<open>events[i]\<close> is the resize event of target \<open>i\<close>; an entry is
  \<open>None\<close> when the event has no \<open>drag\<close>, and \<open>events[i]\<close> is \<open>undefined\<close> beyond the
  end of the array; in both cases the update is \<open>{}\<close>.
\<close>

definition resizeGroupProps :: "Layer list \<Rightarrow> OnResize option list \<Rightarrow> string \<Rightarrow> nat \<Rightarrow> PartialElement" where
  "resizeGroupProps elements events t i =
     (case at_index events (int i) of
        Some (Some ev) \<Rightarrow>
          \<lparr>x_new = Some (drag_left ev), y_new = Some (drag_top ev),
           width_new = Some (ev_width ev), height_new = Some (ev_height ev),
           rotation_new = None,
           fontSize_new =
             (case find (\<lambda>e. layerId e = t) elements of
                Some el \<Rightarrow>
                  if isText el then Some (calculateFontSizeFromHeight (ev_height ev)) else None
              | None \<Rightarrow> None)\<rparr>
      | _ \<Rightarrow> noProps)"

definition onResizeGroupEnd ::
    "(Layer list \<Rightarrow> 'j) \<Rightarrow> string list \<Rightarrow> OnResize option list \<Rightarrow> App \<Rightarrow> error + App" where
  "onResizeGroupEnd stringify targets events app =
     (case layers app of
        None \<Rightarrow> Inl TypeError
      | Some ls \<Rightarrow>
          handleGroupUpdate stringify targets
            (resizeGroupProps (renderableElements ls) events) app)"

text \<open>\<open>elements.find(el => el.id === id)\<close> on the elements of the current layers.\<close>

definition elementById :: "App \<Rightarrow> string \<Rightarrow> Layer option" where
  "elementById app i =
     (case layers app of
        None \<Rightarrow> None
      | Some ls \<Rightarrow> find (\<lambda>el. layerId el = i) (renderableElements ls))"

text \<open>The position of the first occurrence of a value in a list (used to state what
  \<open>groupUpdate\<close> computes).\<close>

fun indexOf :: "'a list \<Rightarrow> 'a \<Rightarrow> nat option" where
  "indexOf [] x = None"
| "indexOf (y # ys) x = (if x = y then Some 0 else map_option Suc (indexOf ys x))"

text \<open>What \<open>groupUpdate\<close> does to one layer, when targets and layer ids are distinct.\<close>

definition updateByTarget :: "(string \<Rightarrow> nat \<Rightarrow> PartialElement) \<Rightarrow> nat \<Rightarrow> string list \<Rightarrow> Layer \<Rightarrow> Layer" where
  "updateByTarget updateFn n targets l =
     (if isImage l \<or> isText l then
        (case indexOf targets (layerId l) of
           Some j \<Rightarrow> spreadProps (updateFn (layerId l) (n + j)) l
         | None \<Rightarrow> l)
      else l)"

subsection \<open>The initial state and the layers of the scenarios\<close>

text \<open>\<open>initialLayers\<close> and the initial values of the state cells, as in the source.\<close>

definition initialLayers :: "Layer list" where
  "initialLayers =
     [Image \<lparr>id' = ''initial-element-1'', name = ''Astronaut'', visible = True, parentId = None,
             x' = 100, y' = 150, width = 350, height = 350, rotation = 0,
             src = ''https://storage.googleapis.com/maker-media-posts/program-output/2024-07-25/119932170/0_1.png'',
             mimeType = ''image/png''\<rparr>]"

definition initialApp :: App where
  "initialApp =
     \<lparr>layersHistory = useHistory initialLayers,
      selectedIds = [],
      isProcessing = False,
      processingMessage = [],
      messages = [\<lparr>msgId = ''welcome-message'', role = System,
                   msgContent = ''Welcome! Draw on the canvas and tell me what you'd like me to generate or edit.'',
                   images = None\<rparr>],
      isShiftPressed = False\<rparr>"

text \<open>Two top-level, visible images and an application state whose layer store is
  exactly these two, both selected: the scenario of the specification.\<close>

definition imageA :: CanvasImageElement where
  "imageA = \<lparr>id' = ''el-1'', name = ''ImageA'', visible = True, parentId = None,
             x' = 50, y' = 50, width = 400, height = 300, rotation = 0,
             src = ''data:image/png;base64,AAAA'', mimeType = ''image/png''\<rparr>"

definition imageB :: CanvasImageElement where
  "imageB = \<lparr>id' = ''el-2'', name = ''ImageB'', visible = True, parentId = None,
             x' = 10, y' = 20, width = 100, height = 100, rotation = 90,
             src = ''data:image/png;base64,BBBB'', mimeType = ''image/png''\<rparr>"

text \<open>A text element of height 40 with the font size that goes with it, alone in
  the layer store.\<close>

definition textT :: CanvasTextElement where
  "textT = (newTextElement 3 20 30)\<lparr>height := 40, fontSize := 100 / 3\<rparr>"

definition textApp :: App where
  "textApp =
     initialApp\<lparr>layersHistory := \<lparr>history = [initialLayers, [Text textT]], currentIndex = 1\<rparr>,
                selectedIds := [''el-3'']\<rparr>"

definition twoImagesApp :: App where
  "twoImagesApp =
     initialApp\<lparr>layersHistory := \<lparr>history = [initialLayers, [Image imageA, Image imageB]],
                                   currentIndex = 1\<rparr>,
                selectedIds := [''el-1'', ''el-2'']\<rparr>"

subsection \<open>The parent relation, and layer stores for the descendant scenarios\<close>

text \<open>The pairs (child id, parent id) of a layer store.\<close>

definition parentEdges :: "Layer list \<Rightarrow> (string \<times> string) set" where
  "parentEdges ls =
     set (List.map_filter (\<lambda>c. map_option (\<lambda>p. (layerId c, p)) (layerParentId c)) ls)"

text \<open>The two images inside a group; an image that names itself as parent; two
  groups that name each other as parent.\<close>

definition groupedImages :: "Layer list" where
  "groupedImages =
     [newGroup ''group-1725'',
      Image (imageA\<lparr>parentId := Some ''group-1725''\<rparr>),
      Image (imageB\<lparr>parentId := Some ''group-1725''\<rparr>)]"

definition selfParentImage :: "Layer list" where
  "selfParentImage = [Image (imageA\<lparr>parentId := Some ''el-1''\<rparr>)]"

definition groupG1 :: Layer where
  "groupG1 = Group \<lparr>id' = ''g1'', name = ''New Group'', visible = True, parentId = Some ''g2'',
                    expanded = True\<rparr>"

definition groupG2 :: Layer where
  "groupG2 = Group \<lparr>id' = ''g2'', name = ''New Group'', visible = True, parentId = Some ''g1'',
                    expanded = True\<rparr>"

definition cyclicGroups :: "Layer list" where
  "cyclicGroups = [groupG1, groupG2]"

definition groupedApp :: App where
  "groupedApp =
     initialApp\<lparr>layersHistory := \<lparr>history = [initialLayers, groupedImages], currentIndex = 1\<rparr>\<rparr>"

subsection \<open>Descendants as the specification words them, and the data-model invariant\<close>

text \<open>
  The specification's "all layer ids whose ownership chain (via \<open>parentId\<close>)
  transitively leads back to \<open>layerId\<close>", to be compared with what
  \<open>getDescendantIds\<close> computes.
\<close>

definition spec_descendantIds :: "Layer list \<Rightarrow> string \<Rightarrow> string set" where
  "spec_descendantIds ls layerId0 = {d. (d, layerId0) \<in> (parentEdges ls)\<^sup>+}"

text \<open>The data model's "\<open>parentId\<close>, when set, references a Group": every layer whose
  id some layer names as its parent is a group.\<close>

definition parentsAreGroups :: "Layer list \<Rightarrow> bool" where
  "parentsAreGroups ls =
     (\<forall>c \<in> set ls. \<forall>l \<in> set ls. layerParentId c = Some (layerId l) \<longrightarrow> isGroup l)"

text \<open>A group that holds an image that is itself named as parent by another image;
  and three groups whose parent links form a cycle.\<close>

definition nonGroupParent :: "Layer list" where
  "nonGroupParent =
     [Group \<lparr>id' = ''g'', name = ''New Group'', visible = True, parentId = None,
             expanded = True\<rparr>,
      Image (imageA\<lparr>id' := ''i'', parentId := Some ''g''\<rparr>),
      Image (imageB\<lparr>id' := ''x'', parentId := Some ''i''\<rparr>)]"

definition nonGroupParentApp :: App where
  "nonGroupParentApp =
     initialApp\<lparr>layersHistory := \<lparr>history = [initialLayers, nonGroupParent], currentIndex = 1\<rparr>\<rparr>"

definition cycleA :: Layer where
  "cycleA = Group \<lparr>id' = ''a'', name = ''New Group'', visible = True, parentId = Some ''c'',
                   expanded = True\<rparr>"

definition cycleB :: Layer where
  "cycleB = Group \<lparr>id' = ''b'', name = ''New Group'', visible = True, parentId = Some ''a'',
                   expanded = True\<rparr>"

definition cycleC :: Layer where
  "cycleC = Group \<lparr>id' = ''c'', name = ''New Group'', visible = True, parentId = Some ''b'',
                   expanded = True\<rparr>"

definition threeCycle :: "Layer list" where
  "threeCycle = [cycleA, cycleB, cycleC]"

text \<open>The first of these stores after the group is dropped inside the innermost
  image.\<close>

definition nonGroupParent_after :: "Layer list" where
  "nonGroupParent_after =
     [Image (imageA\<lparr>id' := ''i'', parentId := Some ''g''\<rparr>),
      Image (imageB\<lparr>id' := ''x'', parentId := Some ''i''\<rparr>),
      Group \<lparr>id' = ''g'', name = ''New Group'', visible = True, parentId = Some ''x'',
             expanded = True\<rparr>]"

subsection \<open>Layer stores for the reorder scenarios\<close>

text \<open>Three nested groups with an image in the innermost one.\<close>

definition nestedGroups :: "Layer list" where
  "nestedGroups =
     [Group \<lparr>id' = ''group-1'', name = ''New Group'', visible = True, parentId = None,
             expanded = True\<rparr>,
      Group \<lparr>id' = ''group-2'', name = ''New Group'', visible = True, parentId = Some ''group-1'',
             expanded = True\<rparr>,
      Group \<lparr>id' = ''group-3'', name = ''New Group'', visible = True, parentId = Some ''group-2'',
             expanded = True\<rparr>,
      Image (imageA\<lparr>parentId := Some ''group-3''\<rparr>)]"

definition nestedApp :: App where
  "nestedApp =
     initialApp\<lparr>layersHistory := \<lparr>history = [initialLayers, nestedGroups], currentIndex = 1\<rparr>\<rparr>"

text \<open>The layers that a selection names, in selection order: \<open>selectedLayers\<close> of
  \<open>handleGroupSelection\<close>.\<close>

definition selectedLayersOf :: "string list \<Rightarrow> Layer list \<Rightarrow> Layer list" where
  "selectedLayersOf sel ls = List.map_filter (\<lambda>i. find (\<lambda>l. layerId l = i) ls) sel"

section \<open>Properties of the history\<close>

lemma state_in_range:
  "pointer_in_range h \<Longrightarrow> state h = Some (history h ! nat (currentIndex h))"
  by (simp add: state_def at_index_def pointer_in_range_def)

lemma slice0_in_range:
  "0 \<le> i \<Longrightarrow> i < int (length xs) \<Longrightarrow> slice0 xs (i + 1) = take (nat i + 1) xs"
  by (simp add: slice0_def Let_def min_def nat_add_distrib)

lemma useHistory_in_range: "pointer_in_range (useHistory s)"
  by (simp add: useHistory_def pointer_in_range_def)

lemma setState_first_commit:
  "stringify b \<noteq> stringify a \<Longrightarrow>
   setState stringify (Value b) (useHistory a) = Inr \<lparr>history = [a, b], currentIndex = 1\<rparr>"
  by (simp add: setState_def applyAction_def useHistory_def state_def at_index_def slice0_def)

lemma setState_keeps_range:
  assumes "pointer_in_range h" "setState stringify action h = Inr h'"
  shows "pointer_in_range h'"
proof -
  have "slice0 (history h) (currentIndex h + 1) = take (nat (currentIndex h) + 1) (history h)"
    using assms(1) by (simp add: slice0_in_range pointer_in_range_def)
  then show ?thesis
    using assms
    by (auto simp: setState_def Let_def pointer_in_range_def split: sum.splits if_splits)
qed

lemma undo_keeps_range: "pointer_in_range h \<Longrightarrow> pointer_in_range (undo h)"
  by (auto simp: undo_def pointer_in_range_def)

text \<open>After an undo the guard of \<open>redo\<close> always holds, and \<open>redo\<close> steps back once more.\<close>

lemma redo_after_undo_index:
  "pointer_in_range h \<Longrightarrow> canUndo h \<Longrightarrow> currentIndex (redo (undo h)) = currentIndex h - 2"
  by (simp add: redo_def undo_def canUndo_def pointer_in_range_def)

text \<open>Repeated, \<open>redo\<close> walks the pointer below the array; a commit there does not
  truncate at the pointer: \<open>slice(0, -1)\<close> drops the last snapshot only.\<close>

lemma redo_twice_after_undo:
  "redo (redo (undo \<lparr>history = [a, b], currentIndex = 1\<rparr>)) = \<lparr>history = [a, b], currentIndex = -2\<rparr>"
  by (simp add: redo_def undo_def)

lemma setState_below_range:
  "setState stringify (Value c) \<lparr>history = [a, b], currentIndex = -2\<rparr>
     = Inr \<lparr>history = [a, c], currentIndex = 1\<rparr>"
  by (simp add: setState_def applyAction_def state_def at_index_def slice0_def)

text \<open>
  C1 (undo then redo restores the state): the code does not do this. On the history
  made by one commit after the initial state, \<open>undo\<close> is enabled, and \<open>undo\<close>
  followed by \<open>redo\<close> leaves the pointer at \<open>-1\<close>, where the current state is
  \<open>undefined\<close>, instead of back on the state that was current before the undo.
\<close>

theorem undo_redo_steps_back_twice:
  "canUndo \<lparr>history = [a, b], currentIndex = 1\<rparr>
   \<and> state \<lparr>history = [a, b], currentIndex = 1\<rparr> = Some b
   \<and> redo (undo \<lparr>history = [a, b], currentIndex = 1\<rparr>) = \<lparr>history = [a, b], currentIndex = -1\<rparr>
   \<and> state (redo (undo \<lparr>history = [a, b], currentIndex = 1\<rparr>)) = None"
  by (simp add: canUndo_def state_def at_index_def redo_def undo_def)

text \<open>What a commit does on a history whose pointer is in range, for a serialiser
  that tells different values apart.\<close>

lemma setState_in_range_commit:
  assumes "inj stringify" and "pointer_in_range h"
    and "applyAction action (state h) = Inr newState"
  shows "setState stringify action h =
           Inr (if newState = history h ! nat (currentIndex h) then h
                else \<lparr>history = take (nat (currentIndex h) + 1) (history h) @ [newState],
                      currentIndex = currentIndex h + 1\<rparr>)
         \<and> (case setState stringify action h of
               Inl e \<Rightarrow> False
             | Inr h' \<Rightarrow> state h' = Some newState \<and> pointer_in_range h')"
proof -
  let ?i = "nat (currentIndex h)"
  have st: "state h = Some (history h ! ?i)"
    using assms(2) by (rule state_in_range)
  have sl: "slice0 (history h) (currentIndex h + 1) = take (?i + 1) (history h)"
    using assms(2) by (simp add: slice0_in_range pointer_in_range_def)
  have lt: "?i < length (history h)" and nn: "0 \<le> currentIndex h"
    using assms(2) by (auto simp: pointer_in_range_def)
  have len: "int (length (take (?i + 1) (history h) @ [newState])) - 1 = currentIndex h + 1"
    using lt nn by simp
  have eq: "(stringify newState = stringify (history h ! ?i)) = (newState = history h ! ?i)"
    using assms(1) by (simp add: inj_eq)
  have main: "setState stringify action h =
           Inr (if newState = history h ! ?i then h
                else \<lparr>history = take (?i + 1) (history h) @ [newState],
                      currentIndex = currentIndex h + 1\<rparr>)"
  proof -
    have a3: "applyAction action (Some (history h ! ?i)) = Inr newState"
      using assms(3) st by simp
    show ?thesis
      unfolding setState_def st a3 sl Let_def using eq lt nn by simp
  qed
  have ni: "nat (currentIndex h + 1) = ?i + 1"
    using assms(2) by (simp add: pointer_in_range_def nat_add_distrib)
  have "state \<lparr>history = take (?i + 1) (history h) @ [newState],
               currentIndex = currentIndex h + 1\<rparr> = Some newState"
    using lt nn by (simp add: state_def at_index_def nth_append ni)
  moreover have "pointer_in_range \<lparr>history = take (?i + 1) (history h) @ [newState],
               currentIndex = currentIndex h + 1\<rparr>"
    using lt nn by (simp add: pointer_in_range_def)
  ultimately show ?thesis
    using main st assms(2) by simp
qed

text \<open>
  C2 (commit): on a history whose pointer is in range, and with a serialiser that
  tells different values apart, \<open>setState\<close> never fails; committing a value equal to
  the current state returns the history unchanged; committing any other value keeps
  the snapshots up to the pointer, appends the new state, and moves the pointer one
  step forward, onto the appended state.
\<close>

theorem setState_commit:
  assumes "inj stringify" and "pointer_in_range h"
    and "applyAction action (state h) = Inr newState"
  shows "setState stringify action h =
           Inr (if newState = history h ! nat (currentIndex h) then h
                else \<lparr>history = take (nat (currentIndex h) + 1) (history h) @ [newState],
                      currentIndex = currentIndex h + 1\<rparr>)
         \<and> (case setState stringify action h of
               Inl e \<Rightarrow> False
             | Inr h' \<Rightarrow> state h' = Some newState \<and> pointer_in_range h')"
  using assms by (rule setState_in_range_commit)

theorem setState_commit_witness:
  "inj (\<lambda>s::string. s)
   \<and> pointer_in_range \<lparr>history = [''a'', ''b'', ''c''], currentIndex = 1\<rparr>
   \<and> setState (\<lambda>s::string. s) (Value ''b'') \<lparr>history = [''a'', ''b'', ''c''], currentIndex = 1\<rparr>
       = Inr \<lparr>history = [''a'', ''b'', ''c''], currentIndex = 1\<rparr>
   \<and> setState (\<lambda>s::string. s) (Value ''d'') \<lparr>history = [''a'', ''b'', ''c''], currentIndex = 1\<rparr>
       = Inr \<lparr>history = [''a'', ''b'', ''d''], currentIndex = 2\<rparr>"
proof -
  let ?h = "\<lparr>history = [''a'', ''b'', ''c''], currentIndex = 1\<rparr>"
  have i: "inj (\<lambda>s::string. s)" by simp
  have r: "pointer_in_range ?h" by (simp add: pointer_in_range_def)
  have a1: "applyAction (Value ''b'') (state ?h) = Inr ''b''" by (simp add: applyAction_def)
  have a2: "applyAction (Value ''d'') (state ?h) = Inr ''d''" by (simp add: applyAction_def)
  show ?thesis
    using i r setState_commit [OF i r a1] setState_commit [OF i r a2] by simp
qed

section \<open>Committing through \<open>setLayers\<close>\<close>

lemma state_Some_in_range: "state h = Some s \<Longrightarrow> pointer_in_range h"
  by (simp add: state_def at_index_def pointer_in_range_def split: if_splits)

lemma setLayers_onLayers_commit:
  assumes "inj stringify" and "layers app = Some ls" and "f ls = Inr new"
  shows "\<exists>h'. setLayers stringify (onLayers f) app = Inr (app\<lparr>layersHistory := h'\<rparr>)
              \<and> state h' = Some new \<and> pointer_in_range h'"
proof -
  let ?h = "layersHistory app"
  have st: "state ?h = Some ls" using assms(2) by (simp add: layers_def)
  have r: "pointer_in_range ?h" using st by (rule state_Some_in_range)
  have a: "applyAction (onLayers f) (state ?h) = Inr new"
    using st assms(3) by (simp add: applyAction_def onLayers_def)
  have c: "case setState stringify (onLayers f) ?h of
               Inl e \<Rightarrow> False
             | Inr h' \<Rightarrow> state h' = Some new \<and> pointer_in_range h'"
    using setState_in_range_commit [OF assms(1) r a] by (rule conjunct2)
  show ?thesis
  proof (cases "setState stringify (onLayers f) ?h")
    case (Inl e)
    with c show ?thesis by simp
  next
    case (Inr h')
    with c show ?thesis by (auto simp: setLayers_def intro!: exI[of _ h'])
  qed
qed

lemma twoImagesApp_layers: "layers twoImagesApp = Some [Image imageA, Image imageB]"
  by (simp add: twoImagesApp_def layers_def state_def at_index_def)


section \<open>Grouping\<close>




section \<open>Keyboard shortcuts\<close>

lemma handleKeyDown_no_delete_while_typing:
  "isTyping activeElement \<Longrightarrow> CallHandleDeleteSelected \<notin> set (handleKeyDown e activeElement)"
  by (simp add: handleKeyDown_def)

text \<open>
  C4 (shortcuts are suppressed while typing): the code does this for Delete only.
  With the focus in an \<open>INPUT\<close>, Ctrl+Z makes \<open>handleKeyDown\<close> call \<open>undo\<close> and
  Ctrl+Shift+Z makes it call \<open>redo\<close>: the test of the focused element comes after
  both calls and guards the Delete branch alone. On a history with an earlier
  snapshot the Ctrl+Z typed into the field replaces the current layers.
\<close>

theorem handleKeyDown_undo_redo_while_typing:
  "isTyping (Some \<lparr>tagName = ''INPUT'', isContentEditable = False\<rparr>)
   \<and> handleKeyDown \<lparr>key = ''z'', metaKey = False, ctrlKey = True, shiftKey = False, repeat = False\<rparr>
        (Some \<lparr>tagName = ''INPUT'', isContentEditable = False\<rparr>) = [PreventDefault, CallUndo]
   \<and> handleKeyDown \<lparr>key = ''z'', metaKey = False, ctrlKey = True, shiftKey = True, repeat = False\<rparr>
        (Some \<lparr>tagName = ''INPUT'', isContentEditable = False\<rparr>) = [PreventDefault, CallRedo]
   \<and> layers twoImagesApp = Some [Image imageA, Image imageB]
   \<and> (case onKeyDown (\<lambda>ls. ls)
              \<lparr>key = ''z'', metaKey = False, ctrlKey = True, shiftKey = False, repeat = False\<rparr>
              (Some \<lparr>tagName = ''INPUT'', isContentEditable = False\<rparr>) twoImagesApp of
         Inl e \<Rightarrow> False
       | Inr app' \<Rightarrow> layers app' = Some initialLayers)"
  by (simp add: isTyping_def handleKeyDown_def onKeyDown_def runKeyCall_def undo_def
      twoImagesApp_def layers_def state_def at_index_def)

section \<open>Background removal\<close>

lemma setState_returns:
  "applyAction action (state h) = Inr new \<Longrightarrow> \<exists>h'. setState stringify action h = Inr h'"
  by (simp add: setState_def Let_def)

lemma setLayers_onLayers_returns:
  assumes "layers app = Some ls" and "f ls = Inr new"
  shows "\<exists>h'. setLayers stringify (onLayers f) app = Inr (app\<lparr>layersHistory := h'\<rparr>)"
proof -
  have "applyAction (onLayers f) (state (layersHistory app)) = Inr new"
    using assms by (simp add: applyAction_def onLayers_def layers_def)
  then obtain h' where "setState stringify (onLayers f) (layersHistory app) = Inr h'"
    using setState_returns [where stringify = stringify] by blast
  then show ?thesis by (auto simp: setLayers_def intro!: exI [of _ h'])
qed

text \<open>
  C9 (a failed background removal): when exactly one layer is selected and it is an
  image, so that the external call is made, and the call throws, the handler
  returns normally; the layer history (and with it the layer store), the selection
  and the shift flag are as before; the transcript is the old one followed by one
  message of role \<open>system\<close>, whose text is the error's message; and the busy flag
  is false, with an empty busy message. The busy flag is false at the end whatever
  the outcome of the call, also when it succeeds.
\<close>

theorem handleRemoveBackground_failure:
  assumes "selectedIds app = [sid]"
    and "layers app = Some ls"
    and "find (\<lambda>l. layerId l = sid \<and> isImage l) ls = Some (Image selectedElement)"
  shows "handleRemoveBackground stringify now (Inl thrown) app =
           Inr (app\<lparr>isProcessing := False, processingMessage := [],
                    messages := messages app @
                      [\<lparr>msgId = ''msg-'' @ decimal now @ ''-err'', role = System,
                        msgContent =
                          (case thrown of
                             ErrorObject message \<Rightarrow> message
                           | NotAnError \<Rightarrow> ''An unknown error occurred during background removal.''),
                        images = None\<rparr>]\<rparr>)
         \<and> (case handleRemoveBackground stringify now awaited app of
               Inl e \<Rightarrow> False
             | Inr app' \<Rightarrow> isProcessing app' = False \<and> processingMessage app' = [])"
proof
  show fail: "handleRemoveBackground stringify now (Inl thrown) app =
           Inr (app\<lparr>isProcessing := False, processingMessage := [],
                    messages := messages app @
                      [\<lparr>msgId = ''msg-'' @ decimal now @ ''-err'', role = System,
                        msgContent =
                          (case thrown of
                             ErrorObject message \<Rightarrow> message
                           | NotAnError \<Rightarrow> ''An unknown error occurred during background removal.''),
                        images = None\<rparr>]\<rparr>)" for thrown
    using assms by (simp add: handleRemoveBackground_def at_index_def)
  show "case handleRemoveBackground stringify now awaited app of
               Inl e \<Rightarrow> False
             | Inr app' \<Rightarrow> isProcessing app' = False \<and> processingMessage app' = []"
  proof (cases awaited)
    case (Inl t)
    then show ?thesis by (simp add: fail)
  next
    case (Inr resultImage)
    let ?app1 = "app\<lparr>isProcessing := True, processingMessage := ''Removing background...''\<rparr>"
    let ?f = "\<lambda>prev. Inr (map (\<lambda>l. if layerId l = id' selectedElement
                 then Image (selectedElement\<lparr>src := resultImage, mimeType := ''image/png''\<rparr>)
                 else l) prev) :: error + Layer list"
    have "layers ?app1 = Some ls" using assms(2) by (simp add: layers_def)
    then obtain h' where "setLayers stringify (onLayers ?f) ?app1 = Inr (?app1\<lparr>layersHistory := h'\<rparr>)"
      using setLayers_onLayers_returns [where stringify = stringify, of ?app1 ls ?f] by blast
    then show ?thesis
      using assms Inr by (simp add: handleRemoveBackground_def at_index_def)
  qed
qed

lemma twoImagesApp_find_el1:
  "find (\<lambda>l. layerId l = ''el-1'' \<and> isImage l) [Image imageA, Image imageB] = Some (Image imageA)"
  by (simp add: layerId_def imageA_def isImage_def)

theorem handleRemoveBackground_failure_witness:
  "selectedIds (twoImagesApp\<lparr>selectedIds := [''el-1'']\<rparr>) = [''el-1'']
   \<and> layers (twoImagesApp\<lparr>selectedIds := [''el-1'']\<rparr>) = Some [Image imageA, Image imageB]
   \<and> find (\<lambda>l. layerId l = ''el-1'' \<and> isImage l) [Image imageA, Image imageB] = Some (Image imageA)
   \<and> handleRemoveBackground (\<lambda>ls :: Layer list. ls) 99
        (Inl (ErrorObject ''Failed to remove background. Please check the console for details.''))
        (twoImagesApp\<lparr>selectedIds := [''el-1'']\<rparr>)
      = Inr (twoImagesApp\<lparr>selectedIds := [''el-1''], isProcessing := False, processingMessage := [],
               messages := messages twoImagesApp @
                 [\<lparr>msgId = ''msg-99-err'', role = System,
                   msgContent = ''Failed to remove background. Please check the console for details.'',
                   images = None\<rparr>]\<rparr>)
   \<and> (case handleRemoveBackground (\<lambda>ls :: Layer list. ls) 99 (Inr ''data:image/png;base64,CCCC'')
              (twoImagesApp\<lparr>selectedIds := [''el-1'']\<rparr>) of
         Inl e \<Rightarrow> False
       | Inr app' \<Rightarrow> isProcessing app' = False \<and> processingMessage app' = [])"
proof -
  let ?app = "twoImagesApp\<lparr>selectedIds := [''el-1'']\<rparr>"
  have s: "selectedIds ?app = [''el-1'']" by simp
  have l: "layers ?app = Some [Image imageA, Image imageB]"
    using twoImagesApp_layers by (simp add: layers_def)
  have d: "''msg-'' @ decimal 99 @ ''-err'' = ''msg-99-err''" by (simp add: decimal.simps)
  note w = handleRemoveBackground_failure [OF s l twoImagesApp_find_el1,
        of "\<lambda>ls. ls" 99 "ErrorObject ''Failed to remove background. Please check the console for details.''"
           "Inr ''data:image/png;base64,CCCC''"]
  show ?thesis
    using s l twoImagesApp_find_el1 w [THEN conjunct1] w [THEN conjunct2]
    unfolding d by simp
qed

section \<open>Resizing a text element\<close>

lemma layerId_spreadProps [simp]: "layerId (spreadProps p l) = layerId l"
  by (cases l) (simp_all add: spreadProps_def layerId_def)

lemma isImage_spreadProps [simp]: "isImage (spreadProps p l) = isImage l"
  by (cases l) (simp_all add: spreadProps_def isImage_def)

lemma isText_spreadProps [simp]: "isText (spreadProps p l) = isText l"
  by (cases l) (simp_all add: spreadProps_def isText_def)

lemma find_renderable_elementUpdate:
  "find (\<lambda>el. layerId el = i) (renderableElements ls) = Some el \<Longrightarrow>
   find (\<lambda>el. layerId el = i) (renderableElements (elementUpdate i p ls)) = Some (spreadProps p el)"
  by (induction ls) (auto simp: renderableElements_def elementUpdate_def split: if_splits)

lemma calculateFontSizeFromHeight_60: "calculateFontSizeFromHeight 60 = 50"
  by (simp add: calculateFontSizeFromHeight_def)

text \<open>The single-element gesture.\<close>

lemma onResizeEnd_text:
  assumes "inj stringify"
    and "layers app = Some ls"
    and "find (\<lambda>el. layerId el = target_id) (renderableElements ls) = Some (Text t)"
  shows "case onResizeEnd stringify target_id (Resize ev) app of
           Inl e \<Rightarrow> False
         | Inr app' \<Rightarrow>
             (case layers app' of
                None \<Rightarrow> False
              | Some ls' \<Rightarrow>
                  find (\<lambda>el. layerId el = target_id) (renderableElements ls') =
                    Some (Text (t\<lparr>x' := drag_left ev, y' := drag_top ev,
                                   width := ev_width ev, height := ev_height ev,
                                   fontSize := max 1 (ev_height ev / 1.2)\<rparr>)))"
proof -
  let ?p = "\<lparr>x_new = Some (drag_left ev), y_new = Some (drag_top ev),
             width_new = Some (ev_width ev), height_new = Some (ev_height ev),
             rotation_new = None,
             fontSize_new = Some (calculateFontSizeFromHeight (ev_height ev))\<rparr>"
  let ?f = "\<lambda>prev. Inr (elementUpdate target_id ?p prev) :: error + Layer list"
  have run: "onResizeEnd stringify target_id (Resize ev) app = setLayers stringify (onLayers ?f) app"
    using assms(2,3) by (simp add: onResizeEnd_def handleElementUpdate_def isText_def)
  obtain h' where h': "setLayers stringify (onLayers ?f) app = Inr (app\<lparr>layersHistory := h'\<rparr>)"
      and st: "state h' = Some (elementUpdate target_id ?p ls)"
    using setLayers_onLayers_commit [of stringify app ls ?f "elementUpdate target_id ?p ls"] assms(1,2)
    by blast
  have found: "find (\<lambda>el. layerId el = target_id)
                 (renderableElements (elementUpdate target_id ?p ls)) = Some (spreadProps ?p (Text t))"
    using assms(3) by (rule find_renderable_elementUpdate)
  have sp: "spreadProps ?p (Text t) =
              Text (t\<lparr>x' := drag_left ev, y' := drag_top ev,
                       width := ev_width ev, height := ev_height ev,
                       fontSize := max 1 (ev_height ev / 1.2)\<rparr>)"
    by (simp add: spreadProps_def orKeep_def calculateFontSizeFromHeight_def)
  show ?thesis
    unfolding run h' using st found sp by (simp add: layers_def)
qed

text \<open>The multi-element gesture: what \<open>handleGroupUpdate\<close> computes, and then the
  same fact for a target of \<open>onResizeGroupEnd\<close>.\<close>

lemma findIndex_cases:
  "(findIndex p xs = -1 \<and> (\<forall>x \<in> set xs. \<not> p x))
   \<or> (\<exists>k. findIndex p xs = int k \<and> k < length xs \<and> p (xs ! k))"
proof (induction xs)
  case Nil
  then show ?case by simp
next
  case (Cons x xs)
  show ?case
  proof (cases "p x")
    case True
    then have "findIndex p (x # xs) = int 0 \<and> 0 < length (x # xs) \<and> p ((x # xs) ! 0)" by simp
    then show ?thesis by blast
  next
    case False
    from Cons.IH show ?thesis
    proof
      assume "findIndex p xs = -1 \<and> (\<forall>x \<in> set xs. \<not> p x)"
      with False show ?thesis by simp
    next
      assume "\<exists>k. findIndex p xs = int k \<and> k < length xs \<and> p (xs ! k)"
      then obtain k where k: "findIndex p xs = int k" "k < length xs" "p (xs ! k)" by blast
      with False have "findIndex p (x # xs) = int (Suc k) \<and> Suc k < length (x # xs)
          \<and> p ((x # xs) ! Suc k)"
        by (simp add: Let_def)
      then show ?thesis by blast
    qed
  qed
qed

lemma step_not_found:
  "findIndex (\<lambda>l. layerId l = t) nl = -1 \<Longrightarrow>
   handleGroupUpdate_step f (i, t) (nl, ids) = (nl, ids)"
  by (simp add: handleGroupUpdate_step_def)

lemma step_found:
  "findIndex (\<lambda>l. layerId l = t) nl = int k \<Longrightarrow> t \<notin> ids \<Longrightarrow>
   handleGroupUpdate_step f (i, t) (nl, ids) =
     ((if isImage (nl ! k) \<or> isText (nl ! k) then nl[k := spreadProps (f t i) (nl ! k)] else nl),
      insert t ids)"
  by (simp add: handleGroupUpdate_step_def Let_def)

lemma indexOf_None_iff: "indexOf ys x = None \<longleftrightarrow> x \<notin> set ys"
  by (induction ys) auto

lemma indexOf_nth: "distinct ys \<Longrightarrow> i < length ys \<Longrightarrow> indexOf ys (ys ! i) = Some i"
proof (induction ys arbitrary: i)
  case Nil
  then show ?case by simp
next
  case (Cons y ys)
  show ?case
  proof (cases i)
    case 0
    then show ?thesis by simp
  next
    case (Suc j)
    with Cons.prems have "ys ! j \<noteq> y" "j < length ys" "distinct ys" by auto
    with Cons.IH Suc show ?thesis by simp
  qed
qed

lemma updateByTarget_skip:
  "layerId l \<noteq> t \<Longrightarrow> updateByTarget f n (t # rest) l = updateByTarget f (Suc n) rest l"
  by (cases "indexOf rest (layerId l)") (simp_all add: updateByTarget_def)

lemma updateByTarget_absent:
  "layerId l \<notin> set rest \<Longrightarrow> updateByTarget f n rest l = l"
  by (simp add: updateByTarget_def indexOf_None_iff [THEN iffD2])

lemma updateByTarget_here:
  "layerId l = t \<Longrightarrow> updateByTarget f n (t # rest) l =
     (if isImage l \<or> isText l then spreadProps (f t n) l else l)"
  by (simp add: updateByTarget_def)

lemma layerId_updateByTarget [simp]: "layerId (updateByTarget f n ts l) = layerId l"
  by (simp add: updateByTarget_def split: option.splits)

lemma renderable_updateByTarget [simp]:
  "isImage (updateByTarget f n ts l) = isImage l" "isText (updateByTarget f n ts l) = isText l"
  by (simp_all add: updateByTarget_def split: option.splits)

lemma fold_handleGroupUpdate_step:
  assumes "distinct (map layerId nl)" and "distinct ts" and "ids \<inter> set ts = {}"
  shows "fst (fold (handleGroupUpdate_step f) (enumerate n ts) (nl, ids)) = map (updateByTarget f n ts) nl"
  using assms
proof (induction ts arbitrary: n nl ids)
  case Nil
  show ?case by (simp add: updateByTarget_def map_idI)
next
  case (Cons t rest)
  from findIndex_cases [of "\<lambda>l. layerId l = t" nl]
  show ?case
  proof
    assume nf: "findIndex (\<lambda>l. layerId l = t) nl = -1 \<and> (\<forall>x \<in> set nl. \<not> layerId x = t)"
    then have step: "handleGroupUpdate_step f (n, t) (nl, ids) = (nl, ids)"
      by (simp add: step_not_found)
    have "fst (fold (handleGroupUpdate_step f) (enumerate (Suc n) rest) (nl, ids))
            = map (updateByTarget f (Suc n) rest) nl"
      using Cons.prems by (intro Cons.IH) auto
    moreover have "map (updateByTarget f (Suc n) rest) nl = map (updateByTarget f n (t # rest)) nl"
      using nf by (intro map_cong refl) (simp add: updateByTarget_skip)
    ultimately show ?thesis by (simp add: step)
  next
    assume "\<exists>k. findIndex (\<lambda>l. layerId l = t) nl = int k \<and> k < length nl \<and> layerId (nl ! k) = t"
    then obtain k where k: "findIndex (\<lambda>l. layerId l = t) nl = int k" "k < length nl"
        "layerId (nl ! k) = t" by blast
    have tn: "t \<notin> ids" "t \<notin> set rest" using Cons.prems by auto
    define nl' where
      "nl' = (if isImage (nl ! k) \<or> isText (nl ! k) then nl[k := spreadProps (f t n) (nl ! k)] else nl)"
    have step: "handleGroupUpdate_step f (n, t) (nl, ids) = (nl', insert t ids)"
      using k(1) tn(1) by (simp add: step_found nl'_def)
    have ids': "map layerId nl' = map layerId nl"
      using k(2) by (simp add: nl'_def map_update list_update_same_conv)
    have len: "length nl' = length nl" by (simp add: nl'_def)
    have IH: "fst (fold (handleGroupUpdate_step f) (enumerate (Suc n) rest) (nl', insert t ids))
            = map (updateByTarget f (Suc n) rest) nl'"
      using Cons.prems tn by (intro Cons.IH) (auto simp: ids')
    have "map (updateByTarget f (Suc n) rest) nl' = map (updateByTarget f n (t # rest)) nl"
    proof (rule nth_equalityI)
      show "length (map (updateByTarget f (Suc n) rest) nl') = length (map (updateByTarget f n (t # rest)) nl)"
        by (simp add: len)
    next
      fix m assume "m < length (map (updateByTarget f (Suc n) rest) nl')"
      then have m: "m < length nl" by (simp add: len)
      show "map (updateByTarget f (Suc n) rest) nl' ! m = map (updateByTarget f n (t # rest)) nl ! m"
      proof (cases "m = k")
        case True
        have "layerId (nl' ! k) = t"
          using k(2,3) by (simp add: nl'_def)
        then have "updateByTarget f (Suc n) rest (nl' ! k) = nl' ! k"
          using tn(2) by (simp add: updateByTarget_absent)
        moreover have "nl' ! k = updateByTarget f n (t # rest) (nl ! k)"
          using k(2,3) by (simp add: nl'_def updateByTarget_here)
        ultimately show ?thesis using True m by (simp add: len)
      next
        case False
        have "layerId (nl ! m) \<noteq> t"
          using Cons.prems(1) k(2,3) m False
          by (metis distinct_conv_nth length_map nth_map)
        moreover have "nl' ! m = nl ! m"
          using False by (simp add: nl'_def)
        ultimately show ?thesis using m by (simp add: len updateByTarget_skip)
      qed
    qed
    with IH show ?thesis by (simp add: step)
  qed
qed

lemma groupUpdate_eq:
  "distinct (map layerId ls) \<Longrightarrow> distinct targets \<Longrightarrow>
   groupUpdate targets f ls = map (updateByTarget f 0 targets) ls"
  by (simp add: groupUpdate_def fold_handleGroupUpdate_step)


lemma find_renderable_map:
  assumes "\<And>l. layerId (G l) = layerId l" "\<And>l. isImage (G l) = isImage l"
    "\<And>l. isText (G l) = isText l"
    and "find (\<lambda>el. layerId el = i) (renderableElements ls) = Some el"
  shows "find (\<lambda>el. layerId el = i) (renderableElements (map G ls)) = Some (G el)"
  using assms(4)
  by (induction ls) (auto simp: renderableElements_def assms(1-3) split: if_splits)

lemma onResizeGroupEnd_text:
  assumes "inj stringify"
    and "layers app = Some ls"
    and "find (\<lambda>el. layerId el = target_id) (renderableElements ls) = Some (Text t)"
    and "distinct (map layerId ls)" and "distinct targets"
    and "i < length targets" and "targets ! i = target_id"
    and "at_index events (int i) = Some (Some ev)"
  shows "case onResizeGroupEnd stringify targets events app of
           Inl e \<Rightarrow> False
         | Inr app' \<Rightarrow>
             (case layers app' of
                None \<Rightarrow> False
              | Some ls' \<Rightarrow>
                  find (\<lambda>el. layerId el = target_id) (renderableElements ls') =
                    Some (Text (t\<lparr>x' := drag_left ev, y' := drag_top ev,
                                   width := ev_width ev, height := ev_height ev,
                                   fontSize := max 1 (ev_height ev / 1.2)\<rparr>)))"
proof -
  let ?F = "resizeGroupProps (renderableElements ls) events"
  let ?f = "\<lambda>prevLayers. Inr (groupUpdate targets ?F prevLayers) :: error + Layer list"
  have run: "onResizeGroupEnd stringify targets events app = setLayers stringify (onLayers ?f) app"
    using assms(2) by (simp add: onResizeGroupEnd_def handleGroupUpdate_def)
  obtain h' where h': "setLayers stringify (onLayers ?f) app = Inr (app\<lparr>layersHistory := h'\<rparr>)"
      and st: "state h' = Some (groupUpdate targets ?F ls)"
    using setLayers_onLayers_commit [of stringify app ls ?f "groupUpdate targets ?F ls"] assms(1,2)
    by blast
  have gu: "groupUpdate targets ?F ls = map (updateByTarget ?F 0 targets) ls"
    using assms(4,5) by (rule groupUpdate_eq)
  have found: "find (\<lambda>el. layerId el = target_id)
                 (renderableElements (map (updateByTarget ?F 0 targets) ls))
               = Some (updateByTarget ?F 0 targets (Text t))"
    using assms(3) by (intro find_renderable_map) simp_all
  have tid: "layerId (Text t) = target_id"
    using assms(3) by (auto simp: find_Some_iff)
  have ix: "indexOf targets target_id = Some i"
    using indexOf_nth [OF assms(5,6)] assms(7) by simp
  have props: "?F target_id i =
      \<lparr>x_new = Some (drag_left ev), y_new = Some (drag_top ev),
       width_new = Some (ev_width ev), height_new = Some (ev_height ev),
       rotation_new = None,
       fontSize_new = Some (calculateFontSizeFromHeight (ev_height ev))\<rparr>"
    using assms(3,8) by (simp add: resizeGroupProps_def isText_def)
  have "updateByTarget ?F 0 targets (Text t) = spreadProps (?F target_id i) (Text t)"
    using tid ix by (simp add: updateByTarget_def isText_def)
  also have "\<dots> = Text (t\<lparr>x' := drag_left ev, y' := drag_top ev,
                       width := ev_width ev, height := ev_height ev,
                       fontSize := max 1 (ev_height ev / 1.2)\<rparr>)"
    unfolding props by (simp add: spreadProps_def orKeep_def calculateFontSizeFromHeight_def)
  finally have sp: "updateByTarget ?F 0 targets (Text t) =
      Text (t\<lparr>x' := drag_left ev, y' := drag_top ev,
               width := ev_width ev, height := ev_height ev,
               fontSize := max 1 (ev_height ev / 1.2)\<rparr>)" .
  show ?thesis
    unfolding run h' using st gu found sp by (simp add: layers_def)
qed

text \<open>
  C8 (font size after a resize): let \<open>target_id\<close> name a text element of the
  current layers. When a resize gesture on it ends with a resize event of height
  \<open>h\<close>, \<open>onResizeEnd\<close> succeeds and the element found under that id in the
  committed layers is the old text element with the event's position and size and
  with \<open>fontSize = max 1 (h / 1.2)\<close>. The same holds after \<open>onResizeGroupEnd\<close> for
  a target of a multi-element gesture whose event has height \<open>h\<close>, when layer ids
  and targets are distinct. Numbers are reals here.
\<close>

theorem resize_text_fontSize:
  assumes "inj stringify"
    and "layers app = Some ls"
    and "find (\<lambda>el. layerId el = target_id) (renderableElements ls) = Some (Text t)"
  shows "(case onResizeEnd stringify target_id (Resize ev) app of
            Inl e \<Rightarrow> False
          | Inr app' \<Rightarrow>
              elementById app' target_id =
                Some (Text (t\<lparr>x' := drag_left ev, y' := drag_top ev,
                               width := ev_width ev, height := ev_height ev,
                               fontSize := max 1 (ev_height ev / 1.2)\<rparr>)))
         \<and> (distinct (map layerId ls) \<and> distinct targets \<and> i < length targets
              \<and> targets ! i = target_id \<and> at_index events (int i) = Some (Some ev) \<longrightarrow>
            (case onResizeGroupEnd stringify targets events app of
               Inl e \<Rightarrow> False
             | Inr app' \<Rightarrow>
                 elementById app' target_id =
                   Some (Text (t\<lparr>x' := drag_left ev, y' := drag_top ev,
                                  width := ev_width ev, height := ev_height ev,
                                  fontSize := max 1 (ev_height ev / 1.2)\<rparr>))))"
proof (intro conjI impI)
  show "case onResizeEnd stringify target_id (Resize ev) app of
            Inl e \<Rightarrow> False
          | Inr app' \<Rightarrow>
              elementById app' target_id =
                Some (Text (t\<lparr>x' := drag_left ev, y' := drag_top ev,
                               width := ev_width ev, height := ev_height ev,
                               fontSize := max 1 (ev_height ev / 1.2)\<rparr>))"
    using onResizeEnd_text [OF assms, of ev]
    by (auto simp: elementById_def split: sum.splits option.splits)
next
  assume "distinct (map layerId ls) \<and> distinct targets \<and> i < length targets
              \<and> targets ! i = target_id \<and> at_index events (int i) = Some (Some ev)"
  then have g: "distinct (map layerId ls)" "distinct targets" "i < length targets"
      "targets ! i = target_id" "at_index events (int i) = Some (Some ev)"
    by simp_all
  have "case onResizeGroupEnd stringify targets events app of
           Inl e \<Rightarrow> False
         | Inr app' \<Rightarrow>
             (case layers app' of
                None \<Rightarrow> False
              | Some ls' \<Rightarrow>
                  find (\<lambda>el. layerId el = target_id) (renderableElements ls') =
                    Some (Text (t\<lparr>x' := drag_left ev, y' := drag_top ev,
                                   width := ev_width ev, height := ev_height ev,
                                   fontSize := max 1 (ev_height ev / 1.2)\<rparr>)))"
    using assms g by (rule onResizeGroupEnd_text)
  then show "case onResizeGroupEnd stringify targets events app of
               Inl e \<Rightarrow> False
             | Inr app' \<Rightarrow>
                 elementById app' target_id =
                   Some (Text (t\<lparr>x' := drag_left ev, y' := drag_top ev,
                                  width := ev_width ev, height := ev_height ev,
                                  fontSize := max 1 (ev_height ev / 1.2)\<rparr>))"
    by (auto simp: elementById_def split: sum.splits option.splits)
qed

lemma textApp_layers: "layers textApp = Some [Text textT]"
  by (simp add: textApp_def layers_def state_def at_index_def)

lemma textApp_find:
  "find (\<lambda>el. layerId el = ''el-3'') (renderableElements [Text textT]) = Some (Text textT)"
  by (simp add: renderableElements_def isText_def layerId_def textT_def newTextElement_def decimal.simps)

theorem resize_text_fontSize_witness:
  "inj (\<lambda>ls :: Layer list. ls)
   \<and> layers textApp = Some [Text textT]
   \<and> find (\<lambda>el. layerId el = ''el-3'') (renderableElements [Text textT]) = Some (Text textT)
   \<and> height textT = 40
   \<and> (case onResizeEnd (\<lambda>ls. ls) ''el-3''
              (Resize \<lparr>ev_width = 250, ev_height = 60, drag_left = 20, drag_top = 30\<rparr>) textApp of
         Inl e \<Rightarrow> False
       | Inr app' \<Rightarrow>
           elementById app' ''el-3'' =
             Some (Text (textT\<lparr>x' := 20, y' := 30, width := 250, height := 60, fontSize := 50\<rparr>)))
   \<and> distinct (map layerId [Text textT])
   \<and> distinct [''el-3'']
   \<and> at_index [Some \<lparr>ev_width = 250, ev_height = 60, drag_left = 20, drag_top = 30\<rparr>] (int 0)
        = Some (Some \<lparr>ev_width = 250, ev_height = 60, drag_left = 20, drag_top = 30\<rparr>)
   \<and> (case onResizeGroupEnd (\<lambda>ls. ls) [''el-3'']
              [Some \<lparr>ev_width = 250, ev_height = 60, drag_left = 20, drag_top = 30\<rparr>] textApp of
         Inl e \<Rightarrow> False
       | Inr app' \<Rightarrow>
           elementById app' ''el-3'' =
             Some (Text (textT\<lparr>x' := 20, y' := 30, width := 250, height := 60, fontSize := 50\<rparr>)))"
proof -
  let ?ev = "\<lparr>ev_width = 250, ev_height = 60, drag_left = 20, drag_top = 30\<rparr>"
  have i: "inj (\<lambda>ls :: Layer list. ls)" by simp
  have m: "max 1 ((60::real) / 1.2) = 50" by simp
  have h: "height textT = 40" by (simp add: textT_def)
  have g: "distinct (map layerId [Text textT]) \<and> distinct [''el-3''] \<and> (0::nat) < length [''el-3'']
           \<and> [''el-3''] ! 0 = ''el-3'' \<and> at_index [Some ?ev] (int 0) = Some (Some ?ev)"
    by (simp add: at_index_def)
  note w = resize_text_fontSize [OF i textApp_layers textApp_find,
      of ?ev "[''el-3'']" 0 "[Some ?ev]"]
  from w have w1: "case onResizeEnd (\<lambda>ls. ls) ''el-3'' (Resize ?ev) textApp of
         Inl e \<Rightarrow> False
       | Inr app' \<Rightarrow>
           elementById app' ''el-3'' =
             Some (Text (textT\<lparr>x' := 20, y' := 30, width := 250, height := 60, fontSize := 50\<rparr>))"
    by (simp add: m split: sum.splits)
  from w g have w2: "case onResizeGroupEnd (\<lambda>ls. ls) [''el-3''] [Some ?ev] textApp of
         Inl e \<Rightarrow> False
       | Inr app' \<Rightarrow>
           elementById app' ''el-3'' =
             Some (Text (textT\<lparr>x' := 20, y' := 30, width := 250, height := 60, fontSize := 50\<rparr>))"
    by (simp add: m split: sum.splits)
  show ?thesis
    using i textApp_layers textApp_find h w1 w2 g by simp
qed

section \<open>Descendants\<close>

lemma parentEdges_iff:
  "(c, p) \<in> parentEdges ls \<longleftrightarrow> (\<exists>l \<in> set ls. layerId l = c \<and> layerParentId l = Some p)"
  by (force simp: parentEdges_def List.map_filter_def)

lemma getDescendantIds_loop_Nil: "getDescendantIds_loop ls [] = Some []"
  by (subst getDescendantIds_loop.simps) simp

lemma getDescendantIds_loop_Cons:
  "getDescendantIds_loop ls (child # rest) =
     Option.bind
       (if isGroup child then getDescendantIds_loop ls (childrenOf (layerId child) ls) else Some [])
       (\<lambda>sub. Option.bind (getDescendantIds_loop ls rest)
          (\<lambda>more. Some (layerId child # sub @ more)))"
  by (subst getDescendantIds_loop.simps) simp

text \<open>The two copies of the function, in App.tsx and in LayersPanel.tsx, compute the
  same thing.\<close>

lemma findChildren_Nil: "findChildren ls [] acc = Some acc"
  by (subst findChildren.simps) simp

lemma findChildren_Cons:
  "findChildren ls (child # rest) acc =
     Option.bind
       (if isGroup child
        then findChildren ls (childrenOf (layerId child) ls) (acc @ [layerId child])
        else Some (acc @ [layerId child]))
       (\<lambda>pushed. findChildren ls rest pushed)"
  by (subst findChildren.simps) simp

lemma loop_imp_findChildren:
  assumes "getDescendantIds_loop ls cs = Some ds"
  shows "\<forall>acc. findChildren ls cs acc = Some (acc @ ds)"
proof (rule getDescendantIds_loop.raw_induct
    [where P = "\<lambda>ls cs ds. \<forall>acc. findChildren ls cs acc = Some (acc @ ds)", OF _ assms])
  fix f :: "Layer list \<Rightarrow> Layer list \<Rightarrow> string list option" and ls' cs' r
  assume IH: "\<And>l c y. f l c = Some y \<Longrightarrow> \<forall>acc. findChildren l c acc = Some (acc @ y)"
    and step: "(case cs' of
          [] \<Rightarrow> Some []
        | child # rest \<Rightarrow>
            Option.bind
              (if isGroup child then f ls' (childrenOf (layerId child) ls') else Some [])
              (\<lambda>sub. Option.bind (f ls' rest) (\<lambda>more. Some (layerId child # sub @ more)))) = Some r"
  show "\<forall>acc. findChildren ls' cs' acc = Some (acc @ r)"
  proof (cases cs')
    case Nil
    with step show ?thesis by (simp add: findChildren_Nil)
  next
    case (Cons c rest)
    with step obtain sub more where
      sub: "(if isGroup c then f ls' (childrenOf (layerId c) ls') else Some []) = Some sub"
      and more: "f ls' rest = Some more" and r: "r = layerId c # sub @ more"
      by (auto split: bind_splits)
    have a: "\<forall>acc. (if isGroup c
               then findChildren ls' (childrenOf (layerId c) ls') (acc @ [layerId c])
               else Some (acc @ [layerId c])) = Some (acc @ [layerId c] @ sub)"
      using sub IH by (auto split: if_splits)
    have b: "\<forall>acc. findChildren ls' rest acc = Some (acc @ more)"
      using more IH by blast
    show ?thesis
      by (simp add: Cons findChildren_Cons a b r)
  qed
qed

lemma findChildren_imp_loop:
  assumes "findChildren ls cs acc = Some r"
  shows "\<exists>ds. getDescendantIds_loop ls cs = Some ds \<and> r = acc @ ds"
proof (rule findChildren.raw_induct
    [where P = "\<lambda>ls cs acc r. \<exists>ds. getDescendantIds_loop ls cs = Some ds \<and> r = acc @ ds", OF _ assms])
  fix f :: "Layer list \<Rightarrow> Layer list \<Rightarrow> string list \<Rightarrow> string list option" and ls' cs' acc' r'
  assume IH: "\<And>l c a y. f l c a = Some y \<Longrightarrow> \<exists>ds. getDescendantIds_loop l c = Some ds \<and> y = a @ ds"
    and step: "(case cs' of
          [] \<Rightarrow> Some acc'
        | child # rest \<Rightarrow>
            Option.bind
              (if isGroup child
               then f ls' (childrenOf (layerId child) ls') (acc' @ [layerId child])
               else Some (acc' @ [layerId child]))
              (\<lambda>pushed. f ls' rest pushed)) = Some r'"
  show "\<exists>ds. getDescendantIds_loop ls' cs' = Some ds \<and> r' = acc' @ ds"
  proof (cases cs')
    case Nil
    with step show ?thesis by (simp add: getDescendantIds_loop_Nil)
  next
    case (Cons c rest)
    with step obtain pushed where
      p: "(if isGroup c then f ls' (childrenOf (layerId c) ls') (acc' @ [layerId c])
           else Some (acc' @ [layerId c])) = Some pushed"
      and q: "f ls' rest pushed = Some r'"
      by (auto split: bind_splits)
    have "\<exists>sub. (if isGroup c then getDescendantIds_loop ls' (childrenOf (layerId c) ls') else Some [])
              = Some sub \<and> pushed = acc' @ [layerId c] @ sub"
      using p IH [of ls' "childrenOf (layerId c) ls'" "acc' @ [layerId c]" pushed]
      by (auto split: if_splits)
    then obtain sub where
      sub: "(if isGroup c then getDescendantIds_loop ls' (childrenOf (layerId c) ls') else Some []) = Some sub"
      and pushed: "pushed = acc' @ [layerId c] @ sub" by blast
    from IH [OF q] obtain more where
      more: "getDescendantIds_loop ls' rest = Some more" and r': "r' = pushed @ more" by blast
    show ?thesis
      by (simp add: Cons getDescendantIds_loop_Cons sub more r' pushed)
  qed
qed

lemma findChildren_eq:
  "findChildren ls cs acc = map_option (\<lambda>ds. acc @ ds) (getDescendantIds_loop ls cs)"
proof (cases "getDescendantIds_loop ls cs")
  case (Some ds)
  then show ?thesis using loop_imp_findChildren by simp
next
  case None
  then show ?thesis using findChildren_imp_loop [of ls cs acc] by (cases "findChildren ls cs acc") auto
qed

lemma LayersPanel_getDescendantIds_eq:
  "LayersPanel_getDescendantIds ls i = getDescendantIds ls i"
  by (simp add: LayersPanel_getDescendantIds_def getDescendantIds_def findChildren_eq
      option.map_ident)

text \<open>On a store whose parent relation is well-founded the loop returns, and every
  id it returns lies strictly below the layer asked for.\<close>

lemma loop_returns:
  assumes "wf (parentEdges ls)"
  shows "\<forall>cs. set cs \<subseteq> set (childrenOf p ls) \<longrightarrow>
           (\<exists>ds. getDescendantIds_loop ls cs = Some ds \<and> set ds \<subseteq> {d. (d, p) \<in> (parentEdges ls)\<^sup>+})"
  using assms
proof (induction p rule: wf_induct_rule)
  case (less p)
  show ?case
  proof (intro allI impI)
    fix cs
    assume "set cs \<subseteq> set (childrenOf p ls)"
    then show "\<exists>ds. getDescendantIds_loop ls cs = Some ds \<and> set ds \<subseteq> {d. (d, p) \<in> (parentEdges ls)\<^sup>+}"
    proof (induction cs)
      case Nil
      show ?case by (simp add: getDescendantIds_loop_Nil)
    next
      case (Cons c rest)
      from Cons.prems have cp: "(layerId c, p) \<in> parentEdges ls"
        by (auto simp: parentEdges_iff childrenOf_def)
      from Cons have "\<exists>ds. getDescendantIds_loop ls rest = Some ds \<and> set ds \<subseteq> {d. (d, p) \<in> (parentEdges ls)\<^sup>+}"
        by simp
      then obtain more where more: "getDescendantIds_loop ls rest = Some more"
        "set more \<subseteq> {d. (d, p) \<in> (parentEdges ls)\<^sup>+}" by blast
      have "\<exists>sub. (if isGroup c then getDescendantIds_loop ls (childrenOf (layerId c) ls) else Some []) = Some sub
                \<and> set sub \<subseteq> {d. (d, layerId c) \<in> (parentEdges ls)\<^sup>+}"
      proof (cases "isGroup c")
        case True
        from less.IH [OF cp] have "\<exists>ds. getDescendantIds_loop ls (childrenOf (layerId c) ls) = Some ds
            \<and> set ds \<subseteq> {d. (d, layerId c) \<in> (parentEdges ls)\<^sup>+}"
          by blast
        with True show ?thesis by simp
      next
        case False
        then show ?thesis by simp
      qed
      then obtain sub where sub: "(if isGroup c then getDescendantIds_loop ls (childrenOf (layerId c) ls) else Some []) = Some sub"
        "set sub \<subseteq> {d. (d, layerId c) \<in> (parentEdges ls)\<^sup>+}" by blast
      have "set sub \<subseteq> {d. (d, p) \<in> (parentEdges ls)\<^sup>+}"
        using sub(2) cp by (auto intro: trancl_into_trancl)
      moreover have "getDescendantIds_loop ls (c # rest) = Some (layerId c # sub @ more)"
        by (simp add: getDescendantIds_loop_Cons sub(1) more(1))
      ultimately show ?case using more(2) cp by auto
    qed
  qed
qed

lemma getDescendantIds_returns:
  assumes "acyclic (parentEdges ls)"
  shows "\<exists>ds. getDescendantIds ls layerId0 = Some ds
              \<and> set ds \<subseteq> {d. (d, layerId0) \<in> (parentEdges ls)\<^sup>+}"
proof -
  have "finite (parentEdges ls)" by (simp add: parentEdges_def)
  then have "wf (parentEdges ls)" using assms by (rule finite_acyclic_wf)
  then show ?thesis
    using loop_returns [of ls layerId0] by (simp add: getDescendantIds_def)
qed

text \<open>
  C3, as the code has it: on every layer store whose parent relation is acyclic,
  and for every layer id, both copies of \<open>getDescendantIds\<close> return, with the same
  list, and the list does not contain the id asked for. (There is no set of visited
  ids; what happens on a cyclic store is the subject of the counterexample below.)
\<close>

theorem getDescendantIds_acyclic:
  assumes "acyclic (parentEdges ls)"
  shows "\<exists>ds. getDescendantIds ls layerId0 = Some ds
              \<and> LayersPanel_getDescendantIds ls layerId0 = Some ds
              \<and> layerId0 \<notin> set ds"
proof -
  obtain ds where ds: "getDescendantIds ls layerId0 = Some ds"
     "set ds \<subseteq> {d. (d, layerId0) \<in> (parentEdges ls)\<^sup>+}"
    using getDescendantIds_returns [OF assms] by blast
  have "(layerId0, layerId0) \<notin> (parentEdges ls)\<^sup>+"
    using assms by (simp add: acyclic_def)
  with ds show ?thesis by (auto simp: LayersPanel_getDescendantIds_eq)
qed

lemma groupedImages_edges:
  "parentEdges groupedImages = {(''el-1'', ''group-1725''), (''el-2'', ''group-1725'')}"
  by (simp add: parentEdges_def groupedImages_def List.map_filter_def layerParentId_def
      layerId_def newGroup_def imageA_def imageB_def)

lemma groupedImages_acyclic: "acyclic (parentEdges groupedImages)"
proof -
  have "parentEdges groupedImages \<subseteq> measure (\<lambda>i. if i = ''group-1725'' then 1 else 0)"
    by (simp add: groupedImages_edges)
  then show ?thesis
    by (rule acyclic_subset [OF wf_acyclic [OF wf_measure]])
qed

theorem getDescendantIds_acyclic_witness:
  "acyclic (parentEdges groupedImages)
   \<and> (\<exists>ds. getDescendantIds groupedImages ''group-1725'' = Some ds
           \<and> LayersPanel_getDescendantIds groupedImages ''group-1725'' = Some ds
           \<and> ''group-1725'' \<notin> set ds)
   \<and> getDescendantIds groupedImages ''group-1725'' = Some [''el-1'', ''el-2'']"
proof -
  have "getDescendantIds groupedImages ''group-1725'' = Some [''el-1'', ''el-2'']"
    by (simp add: getDescendantIds_def groupedImages_def childrenOf_def layerParentId_def
        layerId_def isGroup_def imageA_def imageB_def newGroup_def
        getDescendantIds_loop_Cons getDescendantIds_loop_Nil)
  then show ?thesis
    using groupedImages_acyclic getDescendantIds_acyclic [OF groupedImages_acyclic, of "''group-1725''"]
    by simp
qed

text \<open>
  C3 as stated fails on stores with a cyclic parent chain. For an image whose
  \<open>parentId\<close> is its own id, both copies return a list that contains the id asked
  for. For two groups that are each other's parent, neither copy returns: the
  recursion never ends.
\<close>

lemma cyclicGroups_children:
  "childrenOf ''g1'' cyclicGroups = [groupG2]"
  "childrenOf ''g2'' cyclicGroups = [groupG1]"
  "layerId groupG1 = ''g1''" "layerId groupG2 = ''g2''"
  "isGroup groupG1" "isGroup groupG2"
  by (simp_all add: cyclicGroups_def groupG1_def groupG2_def childrenOf_def layerParentId_def
      layerId_def isGroup_def)

lemma cyclicGroups_never_returns:
  assumes "getDescendantIds_loop ls cs = Some y"
  shows "\<not> (ls = cyclicGroups \<and> (cs = [groupG1] \<or> cs = [groupG2]))"
proof (rule getDescendantIds_loop.raw_induct
    [where P = "\<lambda>ls cs y. \<not> (ls = cyclicGroups \<and> (cs = [groupG1] \<or> cs = [groupG2]))",
     OF _ assms])
  fix f :: "Layer list \<Rightarrow> Layer list \<Rightarrow> string list option" and ls' cs' r
  assume IH: "\<And>l c y. f l c = Some y \<Longrightarrow>
                \<not> (l = cyclicGroups \<and> (c = [groupG1] \<or> c = [groupG2]))"
    and step: "(case cs' of
          [] \<Rightarrow> Some []
        | child # rest \<Rightarrow>
            Option.bind
              (if isGroup child then f ls' (childrenOf (layerId child) ls') else Some [])
              (\<lambda>sub. Option.bind (f ls' rest) (\<lambda>more. Some (layerId child # sub @ more)))) = Some r"
  show "\<not> (ls' = cyclicGroups \<and> (cs' = [groupG1] \<or> cs' = [groupG2]))"
  proof
    assume a: "ls' = cyclicGroups \<and> (cs' = [groupG1] \<or> cs' = [groupG2])"
    then have ls: "ls' = cyclicGroups" by simp
    from a consider "cs' = [groupG1]" | "cs' = [groupG2]" by blast
    then show False
    proof cases
      case 1
      with step ls obtain sub where "f cyclicGroups [groupG2] = Some sub"
        by (auto simp: cyclicGroups_children split: bind_splits)
      with IH show False by blast
    next
      case 2
      with step ls obtain sub where "f cyclicGroups [groupG1] = Some sub"
        by (auto simp: cyclicGroups_children split: bind_splits)
      with IH show False by blast
    qed
  qed
qed

theorem getDescendantIds_cyclic_counterexample:
  "getDescendantIds selfParentImage ''el-1'' = Some [''el-1'']
   \<and> LayersPanel_getDescendantIds selfParentImage ''el-1'' = Some [''el-1'']
   \<and> getDescendantIds cyclicGroups ''g1'' = None
   \<and> LayersPanel_getDescendantIds cyclicGroups ''g1'' = None"
proof -
  have a: "getDescendantIds selfParentImage ''el-1'' = Some [''el-1'']"
    by (simp add: getDescendantIds_def selfParentImage_def childrenOf_def layerParentId_def
        layerId_def isGroup_def imageA_def getDescendantIds_loop_Cons getDescendantIds_loop_Nil)
  have b: "getDescendantIds cyclicGroups ''g1'' = None"
  proof (cases "getDescendantIds cyclicGroups ''g1''")
    case None
    then show ?thesis .
  next
    case (Some y)
    then have "getDescendantIds_loop cyclicGroups [groupG2] = Some y"
      by (simp add: getDescendantIds_def cyclicGroups_children)
    from cyclicGroups_never_returns [OF this] show ?thesis by simp
  qed
  show ?thesis
    using a b by (simp add: LayersPanel_getDescendantIds_eq)
qed

section \<open>Reordering and reparenting\<close>

lemma setLayers_unchanged:
  assumes "layers app = Some ls" and "f ls = Inr ls"
  shows "setLayers stringify (onLayers f) app = Inr app"
  using assms
  by (simp add: setLayers_def setState_def applyAction_def onLayers_def layers_def)

lemma reorderLayers_rejected:
  assumes "(\<exists>dropLayer. layersById prev dropId = Some dropLayer \<and> layerParentId dropLayer = Some dragId)
         \<or> (\<exists>ds. getDescendantIds current dragId = Some ds \<and> dropId \<in> set ds)"
  shows "reorderLayers current dragId dropId position prev = Inr prev"
  using assms
  by (auto simp: reorderLayers_def split: option.splits)

text \<open>
  On a store that keeps the data-model invariants (an acyclic parent relation, and
  only groups named as parents) \<open>getDescendantIds\<close> finds exactly the descendants
  in the sense of the specification. It recurs into groups only, so a child of an
  image is found only when the image cannot have one.
\<close>

lemma spec_descendantIds_unfold:
  "spec_descendantIds ls p =
     (\<Union>c \<in> set (childrenOf p ls). insert (layerId c) (spec_descendantIds ls (layerId c)))"
proof (intro set_eqI iffI)
  fix d assume "d \<in> spec_descendantIds ls p"
  then have "(d, p) \<in> (parentEdges ls)\<^sup>+" by (simp add: spec_descendantIds_def)
  then show "d \<in> (\<Union>c \<in> set (childrenOf p ls). insert (layerId c) (spec_descendantIds ls (layerId c)))"
  proof (cases rule: tranclE)
    case base
    then obtain l where "l \<in> set ls" "layerId l = d" "layerParentId l = Some p"
      by (auto simp: parentEdges_iff)
    then have "l \<in> set (childrenOf p ls)" by (simp add: childrenOf_def)
    with \<open>layerId l = d\<close> show ?thesis by blast
  next
    case (step c)
    from step(2) obtain l where l: "l \<in> set ls" "layerId l = c" "layerParentId l = Some p"
      by (auto simp: parentEdges_iff)
    then have "l \<in> set (childrenOf p ls)" by (simp add: childrenOf_def)
    moreover have "d \<in> spec_descendantIds ls (layerId l)"
      using step(1) l(2) by (simp add: spec_descendantIds_def)
    ultimately show ?thesis by blast
  qed
next
  fix d assume "d \<in> (\<Union>c \<in> set (childrenOf p ls). insert (layerId c) (spec_descendantIds ls (layerId c)))"
  then obtain c where c: "c \<in> set (childrenOf p ls)"
      "d = layerId c \<or> d \<in> spec_descendantIds ls (layerId c)" by blast
  then have e: "(layerId c, p) \<in> parentEdges ls"
    by (auto simp: parentEdges_iff childrenOf_def)
  from c(2) show "d \<in> spec_descendantIds ls p"
  proof
    assume "d = layerId c"
    with e show ?thesis by (simp add: spec_descendantIds_def)
  next
    assume "d \<in> spec_descendantIds ls (layerId c)"
    then have "(d, layerId c) \<in> (parentEdges ls)\<^sup>+" by (simp add: spec_descendantIds_def)
    with e show ?thesis by (simp add: spec_descendantIds_def trancl_into_trancl)
  qed
qed

lemma non_group_has_no_descendants:
  assumes "parentsAreGroups ls" and "c \<in> set ls" and "\<not> isGroup c"
  shows "spec_descendantIds ls (layerId c) = {}"
proof -
  have "childrenOf (layerId c) ls = []"
    using assms by (auto simp: childrenOf_def parentsAreGroups_def filter_empty_conv)
  then show ?thesis
    using spec_descendantIds_unfold [of ls "layerId c"] by simp
qed

lemma loop_complete:
  assumes "wf (parentEdges ls)" and "parentsAreGroups ls"
  shows "\<forall>cs. set cs \<subseteq> set (childrenOf p ls) \<longrightarrow>
           (\<exists>ds. getDescendantIds_loop ls cs = Some ds
              \<and> set ds = (\<Union>c \<in> set cs. insert (layerId c) (spec_descendantIds ls (layerId c))))"
  using assms(1)
proof (induction p rule: wf_induct_rule)
  case (less p)
  show ?case
  proof (intro allI impI)
    fix cs
    assume "set cs \<subseteq> set (childrenOf p ls)"
    then show "\<exists>ds. getDescendantIds_loop ls cs = Some ds
              \<and> set ds = (\<Union>c \<in> set cs. insert (layerId c) (spec_descendantIds ls (layerId c)))"
    proof (induction cs)
      case Nil
      show ?case by (simp add: getDescendantIds_loop_Nil)
    next
      case (Cons c rest)
      from Cons.prems have cp: "(layerId c, p) \<in> parentEdges ls" and cin: "c \<in> set ls"
        by (auto simp: parentEdges_iff childrenOf_def)
      from Cons obtain more where more: "getDescendantIds_loop ls rest = Some more"
        "set more = (\<Union>c \<in> set rest. insert (layerId c) (spec_descendantIds ls (layerId c)))"
        by auto
      have "\<exists>sub. (if isGroup c then getDescendantIds_loop ls (childrenOf (layerId c) ls) else Some []) = Some sub
                \<and> set sub = spec_descendantIds ls (layerId c)"
      proof (cases "isGroup c")
        case True
        from less.IH [OF cp] obtain ds where
          "getDescendantIds_loop ls (childrenOf (layerId c) ls) = Some ds"
          "set ds = (\<Union>c' \<in> set (childrenOf (layerId c) ls).
                      insert (layerId c') (spec_descendantIds ls (layerId c')))"
          by blast
        with True show ?thesis
          using spec_descendantIds_unfold [of ls "layerId c"] by simp
      next
        case False
        then show ?thesis
          using non_group_has_no_descendants [OF assms(2) cin] by simp
      qed
      then obtain sub where sub:
        "(if isGroup c then getDescendantIds_loop ls (childrenOf (layerId c) ls) else Some []) = Some sub"
        "set sub = spec_descendantIds ls (layerId c)" by blast
      have "getDescendantIds_loop ls (c # rest) = Some (layerId c # sub @ more)"
        by (simp add: getDescendantIds_loop_Cons sub(1) more(1))
      then show ?case using sub(2) more(2) by auto
    qed
  qed
qed

lemma getDescendantIds_complete:
  assumes "acyclic (parentEdges ls)" and "parentsAreGroups ls"
  shows "\<exists>ds. getDescendantIds ls layerId0 = Some ds \<and> set ds = spec_descendantIds ls layerId0"
proof -
  have "finite (parentEdges ls)" by (simp add: parentEdges_def)
  then have "wf (parentEdges ls)" using assms(1) by (rule finite_acyclic_wf)
  from loop_complete [OF this assms(2), of layerId0]
  obtain ds where "getDescendantIds_loop ls (childrenOf layerId0 ls) = Some ds"
    "set ds = (\<Union>c \<in> set (childrenOf layerId0 ls).
                 insert (layerId c) (spec_descendantIds ls (layerId c)))"
    by blast
  then show ?thesis
    using spec_descendantIds_unfold [of ls layerId0] by (simp add: getDescendantIds_def)
qed


text \<open>
  C7 (rejected drops), as the code has it: when the drop target's \<open>parentId\<close> is the
  dragged id, the updater returns the list it was given, on every store and for
  every position, and \<open>handleReorderAndReparentLayers\<close> returns the application
  state unchanged: the same history, pointer and selection. The same holds when the
  drop target is a descendant of the dragged layer (its parent chain leads to the
  dragged id), provided that the parent relation of the store is acyclic and every
  layer named as a parent is a group.
\<close>

theorem handleReorderAndReparentLayers_rejected:
  assumes "layers app = Some prev"
    and "(\<exists>dropLayer. layersById prev dropId = Some dropLayer \<and> layerParentId dropLayer = Some dragId)
         \<or> (acyclic (parentEdges prev) \<and> parentsAreGroups prev
              \<and> dropId \<in> spec_descendantIds prev dragId)"
  shows "reorderLayers prev dragId dropId position prev = Inr prev
         \<and> handleReorderAndReparentLayers stringify dragId dropId position app = Inr app"
proof -
  have "(\<exists>dropLayer. layersById prev dropId = Some dropLayer \<and> layerParentId dropLayer = Some dragId)
         \<or> (\<exists>ds. getDescendantIds prev dragId = Some ds \<and> dropId \<in> set ds)"
    using assms(2)
  proof
    assume "\<exists>dropLayer. layersById prev dropId = Some dropLayer \<and> layerParentId dropLayer = Some dragId"
    then show ?thesis by (rule disjI1)
  next
    assume inv: "acyclic (parentEdges prev) \<and> parentsAreGroups prev
              \<and> dropId \<in> spec_descendantIds prev dragId"
    then obtain ds where "getDescendantIds prev dragId = Some ds"
        "set ds = spec_descendantIds prev dragId"
      using getDescendantIds_complete [of prev dragId] by blast
    with inv have "\<exists>ds. getDescendantIds prev dragId = Some ds \<and> dropId \<in> set ds" by simp
    then show ?thesis by (rule disjI2)
  qed
  then have r: "reorderLayers prev dragId dropId position prev = Inr prev"
    by (rule reorderLayers_rejected)
  have "handleReorderAndReparentLayers stringify dragId dropId position app = Inr app"
    unfolding handleReorderAndReparentLayers_def
    by (rule setLayers_unchanged [OF assms(1)]) (simp add: assms(1) r)
  with r show ?thesis by simp
qed

lemma nestedApp_layers: "layers nestedApp = Some nestedGroups"
  by (simp add: nestedApp_def layers_def state_def at_index_def)

lemma nestedGroups_edges:
  "parentEdges nestedGroups =
     {(''group-2'', ''group-1''), (''group-3'', ''group-2''), (''el-1'', ''group-3'')}"
  by (simp add: parentEdges_def nestedGroups_def List.map_filter_def layerParentId_def
      layerId_def imageA_def)

lemma nestedGroups_acyclic: "acyclic (parentEdges nestedGroups)"
proof -
  have "parentEdges nestedGroups \<subseteq>
          measure (\<lambda>i. if i = ''group-1'' then 3 else if i = ''group-2'' then 2
                        else if i = ''group-3'' then 1 else 0)"
    by (simp add: nestedGroups_edges)
  then show ?thesis
    by (rule acyclic_subset [OF wf_acyclic [OF wf_measure]])
qed

lemma nestedGroups_parentsAreGroups: "parentsAreGroups nestedGroups"
  by (simp add: parentsAreGroups_def nestedGroups_def layerParentId_def layerId_def isGroup_def
      imageA_def)

lemma nestedGroups_group3_below_group1: "''group-3'' \<in> spec_descendantIds nestedGroups ''group-1''"
proof -
  have "(''group-3'', ''group-2'') \<in> parentEdges nestedGroups"
    "(''group-2'', ''group-1'') \<in> parentEdges nestedGroups"
    by (simp_all add: nestedGroups_edges)
  then show ?thesis
    unfolding spec_descendantIds_def by (blast intro: trancl_into_trancl)
qed

theorem handleReorderAndReparentLayers_rejected_witness:
  "layers nestedApp = Some nestedGroups
   \<and> acyclic (parentEdges nestedGroups)
   \<and> parentsAreGroups nestedGroups
   \<and> ''group-3'' \<in> spec_descendantIds nestedGroups ''group-1''
   \<and> reorderLayers nestedGroups ''group-1'' ''group-3'' Inside nestedGroups = Inr nestedGroups
   \<and> handleReorderAndReparentLayers (\<lambda>ls :: Layer list. ls) ''group-1'' ''group-3'' Inside nestedApp
        = Inr nestedApp"
proof -
  have h: "(\<exists>dropLayer. layersById nestedGroups ''group-3'' = Some dropLayer
                \<and> layerParentId dropLayer = Some ''group-1'')
         \<or> (acyclic (parentEdges nestedGroups) \<and> parentsAreGroups nestedGroups
              \<and> ''group-3'' \<in> spec_descendantIds nestedGroups ''group-1'')"
    using nestedGroups_acyclic nestedGroups_parentsAreGroups nestedGroups_group3_below_group1
    by blast
  show ?thesis
    using nestedApp_layers nestedGroups_acyclic nestedGroups_parentsAreGroups
      nestedGroups_group3_below_group1
      handleReorderAndReparentLayers_rejected [OF nestedApp_layers h, of Inside "\<lambda>ls. ls"]
    by simp
qed

text \<open>
  C7 as stated fails outside these invariants. In a store where an image is named as
  parent, a drop onto a descendant of the dragged group is accepted when the chain
  passes through the image: the helper returns the image's id only, and the
  committed store has the group under its own descendant. In a store whose parent
  links form a cycle of three groups, the helper never returns and the updater ends
  in a \<open>RangeError\<close> instead of returning the store.
\<close>

lemma nonGroupParentApp_layers: "layers nonGroupParentApp = Some nonGroupParent"
  by (simp add: nonGroupParentApp_def layers_def state_def at_index_def)

lemma nonGroupParent_edges:
  "parentEdges nonGroupParent = {(''i'', ''g''), (''x'', ''i'')}"
  by (simp add: parentEdges_def nonGroupParent_def List.map_filter_def layerParentId_def
      layerId_def imageA_def imageB_def)

lemma nonGroupParent_x_below_g: "''x'' \<in> spec_descendantIds nonGroupParent ''g''"
proof -
  have "(''x'', ''i'') \<in> parentEdges nonGroupParent" "(''i'', ''g'') \<in> parentEdges nonGroupParent"
    by (simp_all add: nonGroupParent_edges)
  then show ?thesis
    unfolding spec_descendantIds_def by (blast intro: trancl_into_trancl)
qed

lemma nonGroupParent_helper: "getDescendantIds nonGroupParent ''g'' = Some [''i'']"
  by (simp add: getDescendantIds_def nonGroupParent_def childrenOf_def layerParentId_def
      layerId_def isGroup_def imageA_def imageB_def
      getDescendantIds_loop_Cons getDescendantIds_loop_Nil)

lemma nonGroupParent_reorder:
  "reorderLayers nonGroupParent ''g'' ''x'' Inside nonGroupParent = Inr nonGroupParent_after"
proof -
  let ?G = "Group \<lparr>id' = ''g'', name = ''New Group'', visible = True, parentId = None,
             expanded = True\<rparr>"
  let ?I = "Image (imageA\<lparr>id' := ''i'', parentId := Some ''g''\<rparr>)"
  let ?X = "Image (imageB\<lparr>id' := ''x'', parentId := Some ''i''\<rparr>)"
  have byId: "layersById nonGroupParent ''g'' = Some ?G" "layersById nonGroupParent ''x'' = Some ?X"
    by (simp_all add: layersById_def nonGroupParent_def layerId_def)
  have nl: "filter (\<lambda>l. layerId l \<noteq> ''g'') nonGroupParent = [?I, ?X]"
    by (simp add: nonGroupParent_def layerId_def)
  show ?thesis
    unfolding reorderLayers_def byId nonGroupParent_helper nl Let_def
    by (simp add: layerId_def layerParentId_def childrenOf_def withParentId_def
        spliceInsert_def spliceStart_def nonGroupParent_after_def)
qed

lemma threeCycle_children:
  "childrenOf ''a'' threeCycle = [cycleB]"
  "childrenOf ''b'' threeCycle = [cycleC]"
  "childrenOf ''c'' threeCycle = [cycleA]"
  "layerId cycleA = ''a''" "layerId cycleB = ''b''" "layerId cycleC = ''c''"
  "isGroup cycleA" "isGroup cycleB" "isGroup cycleC"
  by (simp_all add: threeCycle_def cycleA_def cycleB_def cycleC_def childrenOf_def
      layerParentId_def layerId_def isGroup_def)

lemma threeCycle_never_returns:
  assumes "getDescendantIds_loop ls cs = Some y"
  shows "\<not> (ls = threeCycle \<and> (cs = [cycleA] \<or> cs = [cycleB] \<or> cs = [cycleC]))"
proof (rule getDescendantIds_loop.raw_induct
    [where P = "\<lambda>ls cs y. \<not> (ls = threeCycle \<and> (cs = [cycleA] \<or> cs = [cycleB] \<or> cs = [cycleC]))",
     OF _ assms])
  fix f :: "Layer list \<Rightarrow> Layer list \<Rightarrow> string list option" and ls' cs' r
  assume IH: "\<And>l c y. f l c = Some y \<Longrightarrow>
                \<not> (l = threeCycle \<and> (c = [cycleA] \<or> c = [cycleB] \<or> c = [cycleC]))"
    and step: "(case cs' of
          [] \<Rightarrow> Some []
        | child # rest \<Rightarrow>
            Option.bind
              (if isGroup child then f ls' (childrenOf (layerId child) ls') else Some [])
              (\<lambda>sub. Option.bind (f ls' rest) (\<lambda>more. Some (layerId child # sub @ more)))) = Some r"
  show "\<not> (ls' = threeCycle \<and> (cs' = [cycleA] \<or> cs' = [cycleB] \<or> cs' = [cycleC]))"
  proof
    assume a: "ls' = threeCycle \<and> (cs' = [cycleA] \<or> cs' = [cycleB] \<or> cs' = [cycleC])"
    then have ls: "ls' = threeCycle" by simp
    from a consider "cs' = [cycleA]" | "cs' = [cycleB]" | "cs' = [cycleC]" by blast
    then show False
    proof cases
      case 1
      with step ls obtain sub where "f threeCycle [cycleB] = Some sub"
        by (auto simp: threeCycle_children split: bind_splits)
      with IH show False by blast
    next
      case 2
      with step ls obtain sub where "f threeCycle [cycleC] = Some sub"
        by (auto simp: threeCycle_children split: bind_splits)
      with IH show False by blast
    next
      case 3
      with step ls obtain sub where "f threeCycle [cycleA] = Some sub"
        by (auto simp: threeCycle_children split: bind_splits)
      with IH show False by blast
    qed
  qed
qed

lemma threeCycle_helper: "getDescendantIds threeCycle ''a'' = None"
proof (cases "getDescendantIds threeCycle ''a''")
  case None
  then show ?thesis .
next
  case (Some y)
  then have "getDescendantIds_loop threeCycle [cycleB] = Some y"
    by (simp add: getDescendantIds_def threeCycle_children)
  from threeCycle_never_returns [OF this] show ?thesis by simp
qed

lemma threeCycle_c_below_a: "''c'' \<in> spec_descendantIds threeCycle ''a''"
proof -
  have "(''c'', ''b'') \<in> parentEdges threeCycle" "(''b'', ''a'') \<in> parentEdges threeCycle"
    by (simp_all add: parentEdges_def threeCycle_def cycleA_def cycleB_def cycleC_def
        List.map_filter_def layerParentId_def layerId_def)
  then show ?thesis
    unfolding spec_descendantIds_def by (blast intro: trancl_into_trancl)
qed

lemma threeCycle_reorder:
  "reorderLayers threeCycle ''a'' ''c'' Inside threeCycle = Inl RangeError"
proof -
  have byId: "layersById threeCycle ''a'' = Some cycleA" "layersById threeCycle ''c'' = Some cycleC"
    by (simp_all add: layersById_def threeCycle_def cycleA_def cycleB_def cycleC_def layerId_def)
  have p: "layerParentId cycleC = Some ''b''"
    by (simp add: cycleC_def layerParentId_def)
  show ?thesis
    unfolding reorderLayers_def byId threeCycle_helper by (simp add: p)
qed

theorem reorder_descendant_counterexample:
  "''x'' \<in> spec_descendantIds nonGroupParent ''g''
   \<and> layers nonGroupParentApp = Some nonGroupParent
   \<and> getDescendantIds nonGroupParent ''g'' = Some [''i'']
   \<and> reorderLayers nonGroupParent ''g'' ''x'' Inside nonGroupParent = Inr nonGroupParent_after
   \<and> nonGroupParent_after \<noteq> nonGroupParent
   \<and> (case handleReorderAndReparentLayers (\<lambda>ls :: Layer list. ls) ''g'' ''x'' Inside nonGroupParentApp of
         Inl e \<Rightarrow> False
       | Inr app' \<Rightarrow> layers app' = Some nonGroupParent_after)
   \<and> ''c'' \<in> spec_descendantIds threeCycle ''a''
   \<and> reorderLayers threeCycle ''a'' ''c'' Inside threeCycle = Inl RangeError"
proof -
  let ?f = "\<lambda>p. case layers nonGroupParentApp of None \<Rightarrow> Inl TypeError
                 | Some current \<Rightarrow> reorderLayers current ''g'' ''x'' Inside p"
  have ne: "nonGroupParent_after \<noteq> nonGroupParent"
    by (simp add: nonGroupParent_after_def nonGroupParent_def)
  have f: "?f nonGroupParent = Inr nonGroupParent_after"
    by (simp add: nonGroupParentApp_layers nonGroupParent_reorder)
  have i: "inj (\<lambda>ls :: Layer list. ls)" by simp
  obtain h' where
    "setLayers (\<lambda>ls :: Layer list. ls) (onLayers ?f) nonGroupParentApp
       = Inr (nonGroupParentApp\<lparr>layersHistory := h'\<rparr>)"
    and "state h' = Some nonGroupParent_after"
    using setLayers_onLayers_commit
      [of "\<lambda>ls :: Layer list. ls" nonGroupParentApp nonGroupParent ?f nonGroupParent_after]
      i nonGroupParentApp_layers f
    by blast
  then have app: "case handleReorderAndReparentLayers (\<lambda>ls :: Layer list. ls) ''g'' ''x'' Inside
                         nonGroupParentApp of
         Inl e \<Rightarrow> False
       | Inr app' \<Rightarrow> layers app' = Some nonGroupParent_after"
    by (simp add: handleReorderAndReparentLayers_def layers_def)
  show ?thesis
    using nonGroupParent_x_below_g nonGroupParentApp_layers nonGroupParent_helper
      nonGroupParent_reorder ne app threeCycle_c_below_a threeCycle_reorder
    by (intro conjI)
qed

lemma layersById_SomeD:
  "layersById prev i = Some l \<Longrightarrow> l \<in> set prev \<and> layerId l = i"
  by (auto simp: layersById_def dest!: map_of_SomeD)

lemma layerId_withParentId [simp]: "layerId (withParentId p l) = layerId l"
  by (cases l) (simp_all add: withParentId_def layerId_def)

lemma layerParentId_withParentId [simp]: "layerParentId (withParentId p l) = p"
  by (cases l) (simp_all add: withParentId_def layerParentId_def)

lemma withParentId_idem [simp]: "withParentId p (withParentId q l) = withParentId p l"
  by (cases l) (simp_all add: withParentId_def)

lemma withParentId_same [simp]: "withParentId (layerParentId l) l = l"
  by (cases l) (simp_all add: withParentId_def layerParentId_def)

lemma mset_spliceInsert [simp]: "mset (spliceInsert k x xs) = add_mset x (mset xs)"
proof -
  have "mset (take n xs) + mset (drop n xs) = mset xs" for n
    by (metis append_take_drop_id mset_append)
  then show ?thesis by (simp add: spliceInsert_def Let_def)
qed

lemma set_spliceInsert [simp]: "set (spliceInsert k x xs) = insert x (set xs)"
  by (metis mset_spliceInsert set_mset_add_mset_insert set_mset_mset)

lemma filter_spliceInsert_not [simp]:
  "\<not> P x \<Longrightarrow> filter P (spliceInsert k x xs) = filter P xs"
proof -
  have "filter P (take n xs) @ filter P (drop n xs) = filter P xs" for n
    by (metis append_take_drop_id filter_append)
  then show "\<not> P x \<Longrightarrow> filter P (spliceInsert k x xs) = filter P xs"
    by (simp add: spliceInsert_def Let_def)
qed

text \<open>Every result of the updater is the old list, or the old list without the
  dragged layer and with it inserted somewhere, under some parent.\<close>

lemma reorderLayers_shape:
  assumes "reorderLayers current dragId dropId position prev = Inr new"
  shows "new = prev \<or>
         (\<exists>orig k p. orig \<in> set prev \<and> layerId orig = dragId
             \<and> new = spliceInsert k (withParentId p orig) (filter (\<lambda>l. layerId l \<noteq> dragId) prev))"
proof (cases "layersById prev dragId")
  case None
  with assms show ?thesis by (simp add: reorderLayers_def)
next
  case (Some orig)
  then have o: "orig \<in> set prev" "layerId orig = dragId"
    by (auto dest: layersById_SomeD)
  show ?thesis
  proof (cases "layersById prev dropId")
    case None
    with assms Some show ?thesis by (simp add: reorderLayers_def)
  next
    case drop: (Some dropLayer)
    show ?thesis
    proof (cases "layerParentId dropLayer = Some dragId")
      case True
      with assms Some drop show ?thesis by (simp add: reorderLayers_def)
    next
      case notChild: False
      show ?thesis
      proof (cases "getDescendantIds current dragId")
        case None
        with assms Some drop notChild show ?thesis by (simp add: reorderLayers_def)
      next
        case ds: (Some descendants)
        show ?thesis
        proof (cases "dropId \<in> set descendants")
          case True
          with assms Some drop notChild ds show ?thesis by (simp add: reorderLayers_def)
        next
          case False
          let ?nl = "filter (\<lambda>l. layerId l \<noteq> dragId) prev"
          from assms Some drop notChild ds False
          have "new = prev \<or> (\<exists>k p. new = spliceInsert k (withParentId p orig) ?nl)"
            by (simp add: reorderLayers_def Let_def split: if_splits) blast+
          with o show ?thesis by blast
        qed
      qed
    qed
  qed
qed

lemma distinct_ids_filter_eq:
  assumes "distinct (map layerId prev)" "orig \<in> set prev"
  shows "mset prev = add_mset orig (mset (filter (\<lambda>l. layerId l \<noteq> layerId orig) prev))"
  using assms
proof (induction prev)
  case Nil
  then show ?case by simp
next
  case (Cons a prev)
  show ?case
  proof (cases "a = orig")
    case True
    with Cons.prems have "layerId orig \<notin> layerId ` set prev" by simp
    then have "\<forall>l \<in> set prev. layerId l \<noteq> layerId orig" by (metis imageI)
    then have "filter (\<lambda>l. layerId l \<noteq> layerId orig) prev = prev" by (simp add: filter_id_conv)
    with True show ?thesis by simp
  next
    case False
    with Cons.prems have "orig \<in> set prev" "layerId a \<noteq> layerId orig" by auto
    with Cons show ?thesis by simp
  qed
qed

lemma reorderLayers_preserves:
  assumes d: "distinct (map layerId prev)"
    and r: "reorderLayers current dragId dropId position prev = Inr new"
  shows "mset (map layerId new) = mset (map layerId prev)"
    and "filter (\<lambda>l. layerId l \<noteq> dragId) new = filter (\<lambda>l. layerId l \<noteq> dragId) prev"
    and "\<forall>l \<in> set new. layerId l = dragId \<longrightarrow>
           (\<exists>orig \<in> set prev. layerId orig = dragId \<and> l = withParentId (layerParentId l) orig)"
proof -
  from reorderLayers_shape [OF r] consider "new = prev"
    | orig k p where "orig \<in> set prev" "layerId orig = dragId"
        "new = spliceInsert k (withParentId p orig) (filter (\<lambda>l. layerId l \<noteq> dragId) prev)"
    by blast
  then have "mset (map layerId new) = mset (map layerId prev)
     \<and> filter (\<lambda>l. layerId l \<noteq> dragId) new = filter (\<lambda>l. layerId l \<noteq> dragId) prev
     \<and> (\<forall>l \<in> set new. layerId l = dragId \<longrightarrow>
           (\<exists>orig \<in> set prev. layerId orig = dragId \<and> l = withParentId (layerParentId l) orig))"
  proof cases
    case 1
    then show ?thesis by auto
  next
    case 2
    let ?nl = "filter (\<lambda>l. layerId l \<noteq> dragId) prev"
    have m: "mset prev = add_mset orig (mset ?nl)"
      using distinct_ids_filter_eq [OF d 2(1)] 2(2) by simp
    have "mset (map layerId prev) = add_mset dragId (mset (map layerId ?nl))"
      using arg_cong [OF m, of "image_mset layerId"] 2(2) by simp
    moreover have "mset (map layerId new) = add_mset dragId (mset (map layerId ?nl))"
      unfolding 2(3) by (simp add: 2(2))
    ultimately have a: "mset (map layerId new) = mset (map layerId prev)" by simp
    have b: "filter (\<lambda>l. layerId l \<noteq> dragId) new = ?nl"
      unfolding 2(3) by (simp add: 2(2))
    have c: "\<forall>l \<in> set new. layerId l = dragId \<longrightarrow>
           (\<exists>orig \<in> set prev. layerId orig = dragId \<and> l = withParentId (layerParentId l) orig)"
    proof (intro ballI impI)
      fix l assume "l \<in> set new" "layerId l = dragId"
      then have "l = withParentId p orig" unfolding 2(3) by auto
      then have "l = withParentId (layerParentId l) orig" by simp
      with 2(1,2) show "\<exists>orig \<in> set prev. layerId orig = dragId \<and> l = withParentId (layerParentId l) orig"
        by blast
    qed
    from a b c show ?thesis by simp
  qed
  then show "mset (map layerId new) = mset (map layerId prev)"
    and "filter (\<lambda>l. layerId l \<noteq> dragId) new = filter (\<lambda>l. layerId l \<noteq> dragId) prev"
    and "\<forall>l \<in> set new. layerId l = dragId \<longrightarrow>
           (\<exists>orig \<in> set prev. layerId orig = dragId \<and> l = withParentId (layerParentId l) orig)"
    by simp_all
qed

lemma reorderLayers_returns:
  assumes "getDescendantIds current dragId = Some ds"
  shows "\<exists>new. reorderLayers current dragId dropId position prev = Inr new"
  using assms by (simp add: reorderLayers_def Let_def split: option.splits)

lemma distinct_ids_unique:
  assumes "distinct (map layerId prev)" "a \<in> set prev" "b \<in> set prev" "layerId a = layerId b"
  shows "a = b"
  using assms by (meson distinct_map inj_onD)

text \<open>
  C10 (what an accepted reorder preserves): on a store with distinct ids, when both
  ids name layers, the drop target is not a child of the dragged layer and
  \<open>getDescendantIds\<close> of the dragged id returns a list without the drop target, the
  handler succeeds, the selection is untouched, and in the committed store: the ids
  are the same multiset as before (none lost, none twice); the layers other than
  the dragged one are the same list as before, so each is unchanged and their
  relative order is kept; and a layer with the dragged id is the dragged layer with
  at most its \<open>parentId\<close> changed.
\<close>

theorem handleReorderAndReparentLayers_accepted:
  assumes "inj stringify"
    and "layers app = Some prev"
    and "distinct (map layerId prev)"
    and "layersById prev dragId = Some dragged"
    and "layersById prev dropId = Some dropLayer"
    and "layerParentId dropLayer \<noteq> Some dragId"
    and "getDescendantIds prev dragId = Some ds"
    and "dropId \<notin> set ds"
  shows "\<exists>app' new.
           handleReorderAndReparentLayers stringify dragId dropId position app = Inr app'
           \<and> layers app' = Some new
           \<and> selectedIds app' = selectedIds app
           \<and> mset (map layerId new) = mset (map layerId prev)
           \<and> filter (\<lambda>l. layerId l \<noteq> dragId) new = filter (\<lambda>l. layerId l \<noteq> dragId) prev
           \<and> (\<forall>l \<in> set new. layerId l = dragId \<longrightarrow> l = withParentId (layerParentId l) dragged)"
proof -
  let ?f = "\<lambda>p. case layers app of None \<Rightarrow> Inl TypeError
                 | Some current \<Rightarrow> reorderLayers current dragId dropId position p"
  obtain new where new: "reorderLayers prev dragId dropId position prev = Inr new"
    using reorderLayers_returns [OF assms(7)] by blast
  then have f: "?f prev = Inr new" by (simp add: assms(2))
  obtain h' where h': "setLayers stringify (onLayers ?f) app = Inr (app\<lparr>layersHistory := h'\<rparr>)"
      and st: "state h' = Some new"
    using setLayers_onLayers_commit [of stringify app prev ?f new] assms(1,2) f by blast
  have run: "handleReorderAndReparentLayers stringify dragId dropId position app
               = Inr (app\<lparr>layersHistory := h'\<rparr>)"
    using h' by (simp add: handleReorderAndReparentLayers_def)
  have d: "dragged \<in> set prev" "layerId dragged = dragId"
    using assms(4) by (auto dest: layersById_SomeD)
  have same: "\<forall>l \<in> set new. layerId l = dragId \<longrightarrow> l = withParentId (layerParentId l) dragged"
  proof (intro ballI impI)
    fix l assume "l \<in> set new" "layerId l = dragId"
    with reorderLayers_preserves(3) [OF assms(3) new]
    obtain orig where o: "orig \<in> set prev" "layerId orig = dragId"
        "l = withParentId (layerParentId l) orig" by blast
    have "orig = dragged"
      using distinct_ids_unique [OF assms(3) o(1) d(1)] o(2) d(2) by simp
    with o(3) show "l = withParentId (layerParentId l) dragged" by simp
  qed
  show ?thesis
    using run st same reorderLayers_preserves(1,2) [OF assms(3) new]
    by (intro exI [of _ "app\<lparr>layersHistory := h'\<rparr>"] exI [of _ new]) (simp add: layers_def)
qed


lemma groupedApp_layers: "layers groupedApp = Some groupedImages"
  by (simp add: groupedApp_def layers_def state_def at_index_def)

lemma groupedImages_distinct: "distinct (map layerId groupedImages)"
  by (simp add: groupedImages_def layerId_def newGroup_def imageA_def imageB_def)

lemma groupedImages_byId:
  "layersById groupedImages ''el-2'' = Some (Image (imageB\<lparr>parentId := Some ''group-1725''\<rparr>))"
  "layersById groupedImages ''group-1725'' = Some (newGroup ''group-1725'')"
  by (simp_all add: layersById_def groupedImages_def layerId_def newGroup_def imageA_def imageB_def)

lemma groupedImages_el2_descendants: "getDescendantIds groupedImages ''el-2'' = Some []"
  by (simp add: getDescendantIds_def groupedImages_def childrenOf_def layerParentId_def
      newGroup_def imageA_def imageB_def getDescendantIds_loop_Nil)

lemma groupedImages_reorder:
  "reorderLayers groupedImages ''el-2'' ''group-1725'' Before groupedImages =
     Inr [Image imageB, newGroup ''group-1725'', Image (imageA\<lparr>parentId := Some ''group-1725''\<rparr>)]"
proof -
  have nl: "filter (\<lambda>l. layerId l \<noteq> ''el-2'') groupedImages =
          [newGroup ''group-1725'', Image (imageA\<lparr>parentId := Some ''group-1725''\<rparr>)]"
    by (simp add: groupedImages_def layerId_def newGroup_def imageA_def imageB_def)
  have fi: "findIndex (\<lambda>l. layerId l = ''group-1725'')
              [newGroup ''group-1725'', Image (imageA\<lparr>parentId := Some ''group-1725''\<rparr>)] = 0"
    by (simp add: layerId_def newGroup_def)
  have pg: "layerParentId (newGroup ''group-1725'') = None"
    by (simp add: layerParentId_def newGroup_def)
  have wp: "withParentId None (Image (imageB\<lparr>parentId := Some ''group-1725''\<rparr>)) = Image imageB"
    by (simp add: withParentId_def imageB_def)
  show ?thesis
    unfolding reorderLayers_def groupedImages_byId groupedImages_el2_descendants nl Let_def fi
    by (simp add: pg wp spliceInsert_def spliceStart_def)
qed

theorem handleReorderAndReparentLayers_accepted_witness:
  "inj (\<lambda>ls :: Layer list. ls)
   \<and> layers groupedApp = Some groupedImages
   \<and> distinct (map layerId groupedImages)
   \<and> layersById groupedImages ''el-2'' = Some (Image (imageB\<lparr>parentId := Some ''group-1725''\<rparr>))
   \<and> layersById groupedImages ''group-1725'' = Some (newGroup ''group-1725'')
   \<and> layerParentId (newGroup ''group-1725'') \<noteq> Some ''el-2''
   \<and> getDescendantIds groupedImages ''el-2'' = Some []
   \<and> ''group-1725'' \<notin> set []
   \<and> reorderLayers groupedImages ''el-2'' ''group-1725'' Before groupedImages =
        Inr [Image imageB, newGroup ''group-1725'', Image (imageA\<lparr>parentId := Some ''group-1725''\<rparr>)]
   \<and> (\<exists>app' new.
         handleReorderAndReparentLayers (\<lambda>ls. ls) ''el-2'' ''group-1725'' Before groupedApp = Inr app'
         \<and> layers app' = Some new
         \<and> selectedIds app' = selectedIds groupedApp
         \<and> mset (map layerId new) = mset (map layerId groupedImages)
         \<and> filter (\<lambda>l. layerId l \<noteq> ''el-2'') new = filter (\<lambda>l. layerId l \<noteq> ''el-2'') groupedImages
         \<and> (\<forall>l \<in> set new. layerId l = ''el-2'' \<longrightarrow>
               l = withParentId (layerParentId l) (Image (imageB\<lparr>parentId := Some ''group-1725''\<rparr>))))"
proof -
  have i: "inj (\<lambda>ls :: Layer list. ls)" by simp
  have p: "layerParentId (newGroup ''group-1725'') \<noteq> Some ''el-2''"
    by (simp add: layerParentId_def newGroup_def)
  have n: "''group-1725'' \<notin> set []" by simp
  note w = handleReorderAndReparentLayers_accepted
      [OF i groupedApp_layers groupedImages_distinct groupedImages_byId(1) groupedImages_byId(2)
          p groupedImages_el2_descendants n, of Before]
  show ?thesis
    using i groupedApp_layers groupedImages_distinct groupedImages_byId p
      groupedImages_el2_descendants groupedImages_reorder w
    by simp
qed

section \<open>Grouping and ungrouping\<close>

lemma findIndex_find:
  "find p xs = Some l \<Longrightarrow>
     \<exists>k. findIndex p xs = int k \<and> k < length xs \<and> xs ! k = l"
proof (induction xs)
  case Nil
  then show ?case by simp
next
  case (Cons x xs)
  show ?case
  proof (cases "p x")
    case True
    with Cons.prems show ?thesis by (intro exI [of _ 0]) simp
  next
    case False
    with Cons obtain k where k: "findIndex p xs = int k" "k < length xs" "xs ! k = l"
      by auto
    with False show ?thesis by (intro exI [of _ "Suc k"]) (simp add: Let_def)
  qed
qed

lemma find_layerId: "find (\<lambda>l. layerId l = i) ls = Some l \<Longrightarrow> layerId l = i \<and> l \<in> set ls"
  by (auto simp: find_Some_iff)

lemma spliceStart_in_range: "i < length xs \<Longrightarrow> spliceStart xs (int i) = i"
  by (simp add: spliceStart_def)

lemma spliceDelete1_in_range:
  "i < length xs \<Longrightarrow> spliceDelete1 (int i) xs = take i xs @ drop (Suc i) xs"
  by (simp add: spliceDelete1_def spliceStart_in_range)

lemma mset_delete_nth:
  "i < length xs \<Longrightarrow> add_mset (xs ! i) (mset (take i xs @ drop (Suc i) xs)) = mset xs"
  by (metis mset.simps(2) mset_append union_mset_add_mset_right id_take_nth_drop)

text \<open>Deleting positions from the highest to the lowest removes exactly the elements
  that stood at these positions.\<close>

lemma fold_spliceDelete1_mset:
  assumes "sorted_wrt (>) ks" and "\<forall>k \<in> set ks. k < length xs"
  shows "mset (fold spliceDelete1 (map int ks) xs) + mset (map (\<lambda>k. xs ! k) ks) = mset xs"
  using assms
proof (induction ks arbitrary: xs)
  case Nil
  then show ?case by simp
next
  case (Cons k ks)
  let ?xs' = "take k xs @ drop (Suc k) xs"
  have k: "k < length xs" using Cons.prems by simp
  have lower: "\<forall>j \<in> set ks. j < k" using Cons.prems by simp
  then have len: "\<forall>j \<in> set ks. j < length ?xs'" using k by auto
  have same: "map (\<lambda>j. ?xs' ! j) ks = map (\<lambda>j. xs ! j) ks"
    using lower k by (auto simp: nth_append)
  have "mset (fold spliceDelete1 (map int ks) ?xs') + mset (map (\<lambda>j. ?xs' ! j) ks) = mset ?xs'"
    using Cons.prems len by (intro Cons.IH) simp_all
  then have "mset (fold spliceDelete1 (map int (k # ks)) xs) + mset (map (\<lambda>j. xs ! j) ks) = mset ?xs'"
    using k by (simp add: spliceDelete1_in_range same)
  then show ?case
    using mset_delete_nth [OF k] by simp
qed

lemma fold_spliceInsert_mset:
  "mset (fold (\<lambda>(index, layer). spliceInsert (pos index) (F layer)) (enumerate n xs) base)
     = mset base + mset (map F xs)"
  by (induction xs arbitrary: n base) simp_all


lemma groupLayers_mset:
  assumes d: "distinct sel"
    and ex: "\<forall>i \<in> set sel. \<exists>l. find (\<lambda>l. layerId l = i) ls = Some l"
  shows "\<exists>R. mset R + mset (selectedLayersOf sel ls) = mset ls
           \<and> mset (groupLayers sel g ls) =
               add_mset (newGroup g)
                 (mset R + mset (map (withParentId (Some g)) (selectedLayersOf sel ls)))"
proof -
  define idx where "idx i = nat (findIndex (\<lambda>l. layerId l = i) ls)" for i
  have idx: "findIndex (\<lambda>l. layerId l = i) ls = int (idx i) \<and> idx i < length ls
             \<and> find (\<lambda>l. layerId l = i) ls = Some (ls ! idx i) \<and> layerId (ls ! idx i) = i"
    if "i \<in> set sel" for i
  proof -
    from ex that obtain l where l: "find (\<lambda>l. layerId l = i) ls = Some l" by blast
    from findIndex_find [OF l] obtain k where
      k: "findIndex (\<lambda>l. layerId l = i) ls = int k" "k < length ls" "ls ! k = l" by blast
    have "idx i = k" by (simp add: idx_def k(1))
    with k l find_layerId [OF l] show ?thesis by simp
  qed
  define L where "L = map (\<lambda>i. findIndex (\<lambda>l. layerId l = i) ls) sel"
  have L: "L = map (\<lambda>i. int (idx i)) sel"
    unfolding L_def using idx by simp
  have S: "selectedLayersOf sel ls = map (\<lambda>i. ls ! idx i) sel"
    unfolding selectedLayersOf_def List.map_filter_def using idx by (auto simp: o_def)
  have nonneg: "\<forall>k \<in> set L. 0 \<le> k" unfolding L by auto
  then have filt: "filter (\<lambda>i. i \<noteq> -1) L = L" by (auto simp: filter_id_conv)
  have "inj_on idx (set sel)"
  proof (rule inj_onI)
    fix i j assume "i \<in> set sel" "j \<in> set sel" "idx i = idx j"
    with idx [of i] idx [of j] show "i = j" by metis
  qed
  then have "inj_on (\<lambda>i. int (idx i)) (set sel)" by (auto simp: inj_on_def)
  then have dL: "distinct L" unfolding L using d by (simp add: distinct_map)
  define ks where "ks = map nat (rev (sort L))"
  have "map (\<lambda>k. int (nat k)) (rev (sort L)) = rev (sort L)"
    by (rule map_idI) (use nonneg in auto)
  then have ks_int: "rev (sort L) = map int ks"
    unfolding ks_def by (simp add: o_def)
  have "sorted_wrt (<) (sort L)"
    using dL by (simp add: strict_sorted_iff)
  then have "sorted_wrt (>) (rev (sort L))"
    by (simp add: sorted_wrt_rev)
  then have sk: "sorted_wrt (>) ks"
    unfolding ks_int by (simp add: sorted_wrt_map)
  have mk: "mset ks = mset (map idx sel)"
  proof -
    have "mset ks = image_mset nat (mset L)" by (simp add: ks_def)
    also have "\<dots> = mset (map idx sel)" unfolding L by (simp add: multiset.map_comp o_def)
    finally show ?thesis .
  qed
  then have "set ks = idx ` set sel" by (metis set_map set_mset_mset)
  then have inr: "\<forall>k \<in> set ks. k < length ls" using idx by auto
  define R where "R = fold spliceDelete1 (map int ks) ls"
  have "mset (map (\<lambda>k. ls ! k) ks) = mset (selectedLayersOf sel ls)"
  proof -
    have "mset (map (\<lambda>k. ls ! k) ks) = image_mset (\<lambda>k. ls ! k) (mset (map idx sel))"
      by (simp add: mk)
    then show ?thesis by (simp add: S multiset.map_comp o_def)
  qed
  with fold_spliceDelete1_mset [OF sk inr]
  have RS: "mset R + mset (selectedLayersOf sel ls) = mset ls" by (simp add: R_def)
  have sel_idx: "rev (sort (filter (\<lambda>i. i \<noteq> -1)
            (map (\<lambda>i. findIndex (\<lambda>l. layerId l = i) ls) sel))) = map int ks"
    using filt ks_int by (simp add: L_def)
  have "mset (groupLayers sel g ls) =
          add_mset (newGroup g) (mset R + mset (map (withParentId (Some g)) (selectedLayersOf sel ls)))"
    unfolding groupLayers_def sel_idx Let_def
    by (simp add: fold_spliceInsert_mset R_def selectedLayersOf_def)
  with RS show ?thesis by blast
qed


lemma selectedLayersOf_props:
  assumes "\<forall>i \<in> set sel. \<exists>l. find (\<lambda>l. layerId l = i) ls = Some l \<and> layerParentId l = None"
  shows "map layerId (selectedLayersOf sel ls) = sel"
    and "\<forall>s \<in> set (selectedLayersOf sel ls). s \<in> set ls \<and> layerParentId s = None"
proof -
  have "filter (\<lambda>i. find (\<lambda>l. layerId l = i) ls \<noteq> None) sel = sel"
    using assms by (auto simp: filter_id_conv)
  then have S: "selectedLayersOf sel ls = map (\<lambda>i. the (find (\<lambda>l. layerId l = i) ls)) sel"
    unfolding selectedLayersOf_def List.map_filter_def by (simp add: o_def)
  have each: "layerId (the (find (\<lambda>l. layerId l = i) ls)) = i
              \<and> the (find (\<lambda>l. layerId l = i) ls) \<in> set ls
              \<and> layerParentId (the (find (\<lambda>l. layerId l = i) ls)) = None"
    if "i \<in> set sel" for i
    using assms that find_layerId [of i ls] by fastforce
  show "map layerId (selectedLayersOf sel ls) = sel"
    unfolding S using each by (simp add: map_idI o_def)
  show "\<forall>s \<in> set (selectedLayersOf sel ls). s \<in> set ls \<and> layerParentId s = None"
    unfolding S using each by auto
qed

lemma ungroupLayers_single:
  "ungroupLayers [g] xs =
     (filter (\<lambda>l. layerId l \<noteq> g)
        (map (\<lambda>l. if layerParentId l = Some g then withParentId None l else l) xs),
      map layerId (childrenOf g xs))"
  by (simp add: ungroupLayers_def ungroupStep_def)

lemma newGroup_simps [simp]:
  "layerId (newGroup g) = g" "layerParentId (newGroup g) = None" "isGroup (newGroup g)"
  by (simp_all add: newGroup_def layerId_def layerParentId_def isGroup_def)

lemma withParentId_None [simp]: "layerParentId l = None \<Longrightarrow> withParentId None l = l"
  by (metis withParentId_same)

lemma mset_filter_map_cong:
  "mset xs = mset ys \<Longrightarrow> mset (filter P (map f xs)) = mset (filter P (map f ys))"
  by (metis mset_filter mset_map)

lemma mset_map_filter_cong:
  "mset xs = mset ys \<Longrightarrow> mset (map f (filter P xs)) = mset (map f (filter P ys))"
  by (metis mset_filter mset_map)

lemma release_regrouped:
  "\<forall>s \<in> set xs. layerParentId s = None \<and> layerId s \<noteq> g \<Longrightarrow>
   filter (\<lambda>l. layerId l \<noteq> g)
     (map (\<lambda>l. if layerParentId l = Some g then withParentId None l else l)
        (map (withParentId (Some g)) xs)) = xs"
  by (induction xs) auto

lemma ungroup_after_group:
  assumes d: "distinct sel"
    and ex: "\<forall>i \<in> set sel. \<exists>l. find (\<lambda>l. layerId l = i) ls = Some l \<and> layerParentId l = None"
    and fresh: "\<forall>l \<in> set ls. layerId l \<noteq> g \<and> layerParentId l \<noteq> Some g"
  shows "mset (fst (ungroupLayers [g] (groupLayers sel g ls))) = mset ls"
    and "mset (snd (ungroupLayers [g] (groupLayers sel g ls))) = mset sel"
    and "find (\<lambda>l. layerId l = g) (groupLayers sel g ls) = Some (newGroup g)"
proof -
  let ?S = "selectedLayersOf sel ls"
  let ?rel = "\<lambda>l. if layerParentId l = Some g then withParentId None l else l"
  let ?keep = "\<lambda>l. layerId l \<noteq> g"
  let ?wp = "withParentId (Some g)"
  have ex': "\<forall>i \<in> set sel. \<exists>l. find (\<lambda>l. layerId l = i) ls = Some l"
    using ex by blast
  obtain R where RS: "mset R + mset ?S = mset ls"
    and G: "mset (groupLayers sel g ls) = add_mset (newGroup g) (mset R + mset (map ?wp ?S))"
    using groupLayers_mset [OF d ex'] by blast
  have Sp: "\<forall>s \<in> set ?S. s \<in> set ls \<and> layerParentId s = None"
    and Sid: "map layerId ?S = sel"
    using selectedLayersOf_props [OF ex] by simp_all
  have "set R \<subseteq> set ls"
    by (metis RS set_mset_mset mset_subset_eq_add_left set_mset_mono)
  then have Rp: "\<forall>r \<in> set R. layerId r \<noteq> g \<and> layerParentId r \<noteq> Some g"
    using fresh by blast
  have Sg: "\<forall>s \<in> set ?S. layerId s \<noteq> g" using Sp fresh by blast
  have R1: "filter ?keep (map ?rel R) = R"
    using Rp by (induction R) auto
  have S1: "filter ?keep (map ?rel (map ?wp ?S)) = ?S"
    using Sp Sg by (intro release_regrouped) blast
  have R2: "childrenOf g R = []"
    using Rp by (auto simp: childrenOf_def filter_empty_conv)
  have S2: "map layerId (childrenOf g (map ?wp ?S)) = sel"
    using Sid by (simp add: childrenOf_def o_def)
  have G': "mset (groupLayers sel g ls) = mset (newGroup g # R @ map ?wp ?S)"
    using G by simp
  have "mset (filter ?keep (map ?rel (groupLayers sel g ls)))
          = mset (filter ?keep (map ?rel (newGroup g # R @ map ?wp ?S)))"
    using G' by (rule mset_filter_map_cong)
  also have "\<dots> = mset (filter ?keep (map ?rel R) @ filter ?keep (map ?rel (map ?wp ?S)))"
    by simp
  also have "\<dots> = mset ls"
    unfolding R1 S1 using RS by simp
  finally show "mset (fst (ungroupLayers [g] (groupLayers sel g ls))) = mset ls"
    by (simp add: ungroupLayers_single)
  have "mset (map layerId (childrenOf g (groupLayers sel g ls)))
          = mset (map layerId (childrenOf g (newGroup g # R @ map ?wp ?S)))"
    unfolding childrenOf_def using G' by (rule mset_map_filter_cong)
  also have "\<dots> = mset (map layerId (childrenOf g R) @ map layerId (childrenOf g (map ?wp ?S)))"
    by (simp add: childrenOf_def)
  also have "\<dots> = mset sel"
    unfolding R2 S2 by simp
  finally show "mset (snd (ungroupLayers [g] (groupLayers sel g ls))) = mset sel"
    by (simp add: ungroupLayers_single)
  have mem: "set (groupLayers sel g ls) = insert (newGroup g) (set R \<union> set (map ?wp ?S))"
    by (metis G set_mset_add_mset_insert set_mset_mset set_mset_union)
  show "find (\<lambda>l. layerId l = g) (groupLayers sel g ls) = Some (newGroup g)"
  proof (cases "find (\<lambda>l. layerId l = g) (groupLayers sel g ls)")
    case None
    then have "\<forall>l \<in> set (groupLayers sel g ls). layerId l \<noteq> g"
      by (simp add: find_None_iff)
    with mem show ?thesis by auto
  next
    case (Some l)
    from find_layerId [OF Some] have lg: "layerId l = g" and "l \<in> set (groupLayers sel g ls)"
      by simp_all
    with mem consider "l = newGroup g" | "l \<in> set R" | s where "s \<in> set ?S" "l = ?wp s"
      by auto
    then have "l = newGroup g"
    proof cases
      case 1
      then show ?thesis .
    next
      case 2
      with Rp have "layerId l \<noteq> g" by blast
      with lg show ?thesis by simp
    next
      case 3
      then have "layerId l = layerId s" by simp
      moreover from 3(1) Sg have "layerId s \<noteq> g" by blast
      ultimately show ?thesis using lg by simp
    qed
    with Some show ?thesis by simp
  qed
qed


text \<open>
  C6 (group, then ungroup): let the store have a pointer in range, let the selection
  be non-empty, without repetition, and name top-level layers of the store, and let
  the new group id (\<open>group-\<close> and the clock reading) be fresh: no layer has it as id
  or as \<open>parentId\<close>. Then \<open>handleGroupSelection\<close> succeeds and selects the new
  group; \<open>handleUngroupSelection\<close> right after it succeeds; and afterwards the store
  holds exactly the layers it held at the start, each unchanged (so the selected
  ones are top-level again), in possibly another order; no layer carries the group's
  id; and the selection consists of the ids selected at the start.
\<close>

theorem group_then_ungroup:
  assumes "inj stringify"
    and "layers app = Some ls"
    and "selectedIds app \<noteq> []"
    and "distinct (selectedIds app)"
    and "\<forall>i \<in> set (selectedIds app).
           \<exists>l. find (\<lambda>l. layerId l = i) ls = Some l \<and> layerParentId l = None"
    and "\<forall>l \<in> set ls. layerId l \<noteq> ''group-'' @ decimal now
                      \<and> layerParentId l \<noteq> Some (''group-'' @ decimal now)"
  shows "\<exists>app1 app2 ls2.
           handleGroupSelection stringify now app = Inr app1
           \<and> selectedIds app1 = [''group-'' @ decimal now]
           \<and> handleUngroupSelection stringify app1 = Inr app2
           \<and> layers app2 = Some ls2
           \<and> mset ls2 = mset ls
           \<and> (\<forall>l \<in> set ls2. layerId l \<noteq> ''group-'' @ decimal now)
           \<and> (\<forall>i \<in> set (selectedIds app). \<exists>l \<in> set ls2. layerId l = i \<and> layerParentId l = None)
           \<and> mset (selectedIds app2) = mset (selectedIds app)"
proof -
  define g where "g = ''group-'' @ decimal now"
  let ?sel = "selectedIds app"
  let ?grouped = "groupLayers ?sel g ls"
  let ?f1 = "\<lambda>prevLayers. Inr (groupLayers ?sel g prevLayers) :: error + Layer list"
  let ?f2 = "\<lambda>prevLayers. Inr (fst (ungroupLayers [g] prevLayers)) :: error + Layer list"
  have fresh: "\<forall>l \<in> set ls. layerId l \<noteq> g \<and> layerParentId l \<noteq> Some g"
    using assms(6) unfolding g_def .
  note ug = ungroup_after_group [OF assms(4) assms(5) fresh]
  obtain h1 where h1: "setLayers stringify (onLayers ?f1) app = Inr (app\<lparr>layersHistory := h1\<rparr>)"
      and st1: "state h1 = Some ?grouped"
    using setLayers_onLayers_commit [of stringify app ls ?f1 ?grouped] assms(1,2) by blast
  define app1 where "app1 = app\<lparr>layersHistory := h1, selectedIds := [g]\<rparr>"
  have len: "\<not> length (selectedIds app) < 1"
    using assms(3) by (cases "selectedIds app") simp_all
  have run1: "handleGroupSelection stringify now app = Inr app1"
    unfolding handleGroupSelection_def g_def [symmetric] Let_def
    using h1 len by (simp add: app1_def)
  have l1: "layers app1 = Some ?grouped"
    using st1 by (simp add: app1_def layers_def)
  have s1: "selectedIds app1 = [g]" by (simp add: app1_def)
  obtain h2 where h2: "setLayers stringify (onLayers ?f2) app1 = Inr (app1\<lparr>layersHistory := h2\<rparr>)"
      and st2: "state h2 = Some (fst (ungroupLayers [g] ?grouped))"
    using setLayers_onLayers_commit [of stringify app1 ?grouped ?f2 "fst (ungroupLayers [g] ?grouped)"]
      assms(1) l1 by blast
  define app2 where
    "app2 = app1\<lparr>layersHistory := h2, selectedIds := snd (ungroupLayers [g] ?grouped)\<rparr>"
  have run2: "handleUngroupSelection stringify app1 = Inr app2"
    using h2 by (simp add: handleUngroupSelection_def l1 s1 ug(3) app2_def)
  let ?ls2 = "fst (ungroupLayers [g] ?grouped)"
  have l2: "layers app2 = Some ?ls2"
    using st2 by (simp add: app2_def layers_def)
  have set2: "set ?ls2 = set ls"
    using ug(1) by (metis set_mset_mset)
  have nog: "\<forall>l \<in> set ?ls2. layerId l \<noteq> g"
    using set2 fresh by blast
  have top: "\<forall>i \<in> set ?sel. \<exists>l \<in> set ?ls2. layerId l = i \<and> layerParentId l = None"
  proof
    fix i assume "i \<in> set ?sel"
    with assms(5) obtain l where l: "find (\<lambda>l. layerId l = i) ls = Some l" "layerParentId l = None"
      by blast
    from find_layerId [OF l(1)] l(2) set2
    show "\<exists>l \<in> set ?ls2. layerId l = i \<and> layerParentId l = None" by blast
  qed
  have sel2: "mset (selectedIds app2) = mset ?sel"
    using ug(2) by (simp add: app2_def)
  have "\<exists>app1 app2 ls2.
           handleGroupSelection stringify now app = Inr app1
           \<and> selectedIds app1 = [g]
           \<and> handleUngroupSelection stringify app1 = Inr app2
           \<and> layers app2 = Some ls2
           \<and> mset ls2 = mset ls
           \<and> (\<forall>l \<in> set ls2. layerId l \<noteq> g)
           \<and> (\<forall>i \<in> set (selectedIds app). \<exists>l \<in> set ls2. layerId l = i \<and> layerParentId l = None)
           \<and> mset (selectedIds app2) = mset (selectedIds app)"
    using run1 s1 run2 l2 ug(1) nog top sel2
    by (intro exI [of _ app1] exI [of _ app2] exI [of _ ?ls2]) simp
  then show ?thesis unfolding g_def .
qed


lemma twoImagesApp_selected_top_level:
  "\<forall>i \<in> set (selectedIds twoImagesApp).
      \<exists>l. find (\<lambda>l. layerId l = i) [Image imageA, Image imageB] = Some l \<and> layerParentId l = None"
  by (simp add: twoImagesApp_def layerId_def layerParentId_def imageA_def imageB_def)

lemma twoImagesApp_fresh:
  "\<forall>l \<in> set [Image imageA, Image imageB].
      layerId l \<noteq> ''group-'' @ decimal 1725 \<and> layerParentId l \<noteq> Some (''group-'' @ decimal 1725)"
  by (simp add: layerId_def layerParentId_def imageA_def imageB_def)

theorem group_then_ungroup_witness:
  "inj (\<lambda>ls :: Layer list. ls)
   \<and> layers twoImagesApp = Some [Image imageA, Image imageB]
   \<and> selectedIds twoImagesApp = [''el-1'', ''el-2'']
   \<and> find (\<lambda>l. layerId l = ''el-1'') [Image imageA, Image imageB] = Some (Image imageA)
   \<and> find (\<lambda>l. layerId l = ''el-2'') [Image imageA, Image imageB] = Some (Image imageB)
   \<and> layerParentId (Image imageA) = None
   \<and> layerParentId (Image imageB) = None
   \<and> (\<exists>app1 app2 ls2.
         handleGroupSelection (\<lambda>ls. ls) 1725 twoImagesApp = Inr app1
         \<and> selectedIds app1 = [''group-'' @ decimal 1725]
         \<and> handleUngroupSelection (\<lambda>ls. ls) app1 = Inr app2
         \<and> layers app2 = Some ls2
         \<and> mset ls2 = mset [Image imageA, Image imageB]
         \<and> (\<forall>l \<in> set ls2. layerId l \<noteq> ''group-'' @ decimal 1725)
         \<and> (\<forall>i \<in> set (selectedIds twoImagesApp).
               \<exists>l \<in> set ls2. layerId l = i \<and> layerParentId l = None)
         \<and> mset (selectedIds app2) = mset (selectedIds twoImagesApp))"
proof -
  have i: "inj (\<lambda>ls :: Layer list. ls)" by simp
  have n: "selectedIds twoImagesApp \<noteq> []" by (simp add: twoImagesApp_def)
  have d: "distinct (selectedIds twoImagesApp)" by (simp add: twoImagesApp_def)
  have s: "selectedIds twoImagesApp = [''el-1'', ''el-2'']" by (simp add: twoImagesApp_def)
  have f: "find (\<lambda>l. layerId l = ''el-1'') [Image imageA, Image imageB] = Some (Image imageA)"
    "find (\<lambda>l. layerId l = ''el-2'') [Image imageA, Image imageB] = Some (Image imageB)"
    "layerParentId (Image imageA) = None" "layerParentId (Image imageB) = None"
    by (simp_all add: layerId_def layerParentId_def imageA_def imageB_def)
  note w = group_then_ungroup
      [OF i twoImagesApp_layers n d twoImagesApp_selected_top_level twoImagesApp_fresh]
  show ?thesis
    using i twoImagesApp_layers s f w
    by (intro conjI)
qed

end
